theory Spec2Isabelle
  imports Main
begin

section \<open>POSIX message queues and named semaphores of \<open>posix_ipc.cc\<close>\<close>

text \<open>
  The development embeds the message-queue and semaphore functions of
  \<open>winsup/cygwin/posix_ipc.cc\<close>.  The mapped segment is a header followed by
  message slots; a slot is addressed by its byte offset from the start of the
  segment (\<open>mptr[index]\<close> in the source), and offset \<open>0\<close> ends a list.  The
  segment is modelled as the header record together with a function from byte
  offsets to the \<open>msg_hdr\<close> found there, so distinct offsets are distinct
  slots (slots do not overlap).  The link and length fields of a slot are
  \<open>int32_t\<close> in the source, and every store to them goes through
  \<open>int32_t\<close> below; the header fields, whose declarations lie outside the
  file, are unbounded integers.  Everything the operating system decides
  (results of waits, of file operations, of other processes running while the
  mutex is released) is an explicit argument.
\<close>

subsection \<open>Machine integers\<close>

text \<open>\<open>int32_t\<close>: the value stored when an integer is assigned to a 32-bit
  signed field (two's complement wrap-around, as GCC defines the conversion).\<close>

definition int32_t :: "int \<Rightarrow> int" where
  "int32_t x = (x + 2147483648) mod 4294967296 - 2147483648"

text \<open>\<open>(size_t) x\<close> on a 64-bit target.\<close>

definition size_t :: "int \<Rightarrow> int" where
  "size_t x = x mod 18446744073709551616"

subsection \<open>Errors and results\<close>

text \<open>The \<open>errno\<close> codes the source names; \<open>ERRNO n\<close> is an \<open>errno\<close> set
  from the number \<open>n\<close> (the source assigns the return value of
  \<open>ipc_mutex_lock\<close> to \<open>errno\<close>), \<open>EWIN k\<close> an error code produced by
  \<open>geterrno_from_win_error\<close> or \<open>geterrno_from_nt_status\<close>.\<close>

datatype errno = EBADF | EINVAL | EAGAIN | EMSGSIZE | EINTR | ETIMEDOUT
  | EEXIST | ENOENT | EBUSY | ERRNO int | EWIN nat

text \<open>How a call ends: it returns a value, returns \<open>-1\<close> with \<open>errno\<close> set,
  terminates the process through \<open>api_fatal\<close>, or the calling thread is
  cancelled inside the call.  A call that never returns is \<open>None\<close> of the
  enclosing option type.\<close>

datatype 'a ret = Ok 'a | Err errno | Fatal | Cancelled

subsection \<open>Platform constants declared outside the source file\<close>

record timespec =
  tv_sec :: int
  tv_nsec :: int

text \<open>Sizes, limits and the deadline check that \<open>posix_ipc.cc\<close> uses but does
  not declare are parameters of the model.\<close>

record platform =
  sizeof_mq_hdr :: int
  sizeof_long :: int
  MQ_PRIO_MAX :: nat
  MQI_MAGIC :: nat
  sizeof_sem_finfo :: int
  valid_timespec :: "timespec \<Rightarrow> bool"

subsection \<open>The shared segment\<close>

datatype oflag = O_CREAT | O_EXCL | O_NONBLOCK | O_OTHER nat

datatype notify = SIGEV_SIGNAL | SIGEV_NONE | SIGEV_THREAD

record sigevent =
  sigev_notify :: notify
  sigev_signo :: int
  sigev_value :: int

text \<open>\<open>struct mq_attr\<close>; a flag word is the set of the flags that are set in it.\<close>

record mq_attr =
  mq_flags :: "oflag set"
  mq_maxmsg :: int
  mq_msgsize :: int
  mq_curmsgs :: int

text \<open>\<open>struct msg_hdr\<close> and the payload bytes that follow it in the slot
  (\<open>nmsghdr + 1\<close>).\<close>

record msg_hdr =
  msg_next :: int
  msg_len :: int
  msg_prio :: nat
  msg_body :: string

text \<open>\<open>struct mq_hdr\<close> at offset \<open>0\<close>, and \<open>mptr\<close>: the slots of the mapped
  segment by byte offset.\<close>

record mq_hdr =
  mqh_attr :: mq_attr
  mqh_head :: int
  mqh_free :: int
  mqh_nwait :: int
  mqh_pid :: int
  mqh_event :: sigevent
  mqh_magic :: nat
  mptr :: "int \<Rightarrow> msg_hdr"

text \<open>\<open>struct mq_info\<close>, the per-descriptor data: the magic and the
  per-open flags (the handles it holds are the mutex and the two events named
  in the traces below).\<close>

record mq_info =
  mqi_magic :: nat
  mqi_flags :: "oflag set"

datatype cond = WAITSEND | WAITRECV

text \<open>What a call does to the world outside the segment.\<close>

datatype event =
    SIGQUEUE int int int
  | SET_EVENT cond
  | RESET_EVENT cond
  | ACQUIRE_MUTEX
  | RELEASE_MUTEX
  | CREATE_TIMER
  | SET_TIMER
  | CANCEL_TIMER
  | CLOSE_TIMER

subsection \<open>Sync primitives\<close>

datatype cygwait_result = CW_OBJECT_0 | CW_ABANDONED_0 | CW_SIGNALED | CW_OTHER int

text \<open>\<open>ipc_mutex_lock\<close>: the value it returns (\<open>CW_OTHER n\<close>: any other
  result of \<open>cygwait\<close>, with \<open>n\<close> what \<open>geterrno_from_win_error\<close> gives).\<close>

fun ipc_mutex_lock :: "cygwait_result \<Rightarrow> int" where
  "ipc_mutex_lock CW_OBJECT_0 = 0"
| "ipc_mutex_lock CW_ABANDONED_0 = 0"
| "ipc_mutex_lock CW_SIGNALED = 1"
| "ipc_mutex_lock (CW_OTHER n) = n"

text \<open>Results of \<open>WaitForMultipleObjects\<close>; \<open>WAIT_OBJECT_1 b\<close> is the
  signal-arrived event, \<open>b\<close> what \<open>call_signal_handler\<close> then returns.\<close>

datatype wfmo = WAIT_OBJECT_0 | WAIT_OBJECT_1 bool | WAIT_OBJECT_2 | WAIT_OBJECT_3
  | WAIT_ABANDONED_0 | WAIT_FAILED

text \<open>Everything outside the caller's control during one
  \<open>ipc_cond_timedwait\<close>: whether the thread has a cancel event, the results of
  the timer calls and of \<open>ReleaseMutex\<close> (\<open>None\<close> is success), the successive
  results of the two waits, the code \<open>geterrno_from_win_error\<close> yields,
  whether \<open>pthread_testcancel\<close> finds a pending cancellation, and what other
  processes do to the segment while the mutex is released.\<close>

record wait_env =
  cancel_event :: bool
  nt_create_timer :: "errno option"
  nt_set_timer :: "errno option"
  release_mutex :: "errno option"
  evt_wait :: "wfmo list"
  mtx_wait :: "wfmo list"
  win_error :: errno
  cancel_pending :: bool
  others :: "mq_hdr \<Rightarrow> mq_hdr"

datatype wait_ret = RET "errno option" | THREAD_EXIT

text \<open>The first \<open>switch\<close> (label \<open>restart1\<close>): wait for the event.\<close>

fun wait_evt :: "nat \<Rightarrow> errno \<Rightarrow> wfmo list \<Rightarrow> wait_ret option" where
  "wait_evt timer_idx e [] = None"
| "wait_evt timer_idx e (WAIT_OBJECT_0 # ws) = Some (RET None)"
| "wait_evt timer_idx e (WAIT_OBJECT_1 handled # ws) =
     (if handled then wait_evt timer_idx e ws else Some (RET (Some EINTR)))"
| "wait_evt timer_idx e (WAIT_OBJECT_2 # ws) =
     (if timer_idx \<noteq> 2 then Some THREAD_EXIT else Some (RET (Some ETIMEDOUT)))"
| "wait_evt timer_idx e (WAIT_OBJECT_3 # ws) = Some (RET (Some ETIMEDOUT))"
| "wait_evt timer_idx e (WAIT_ABANDONED_0 # ws) = Some (RET (Some e))"
| "wait_evt timer_idx e (WAIT_FAILED # ws) = Some (RET (Some e))"

text \<open>The second \<open>switch\<close> (label \<open>restart2\<close>): wait for the mutex.\<close>

fun wait_mtx :: "nat \<Rightarrow> errno \<Rightarrow> bool \<Rightarrow> wfmo list \<Rightarrow> wait_ret option" where
  "wait_mtx timer_idx e cp [] = None"
| "wait_mtx timer_idx e cp (WAIT_OBJECT_0 # ws) = Some (RET None)"
| "wait_mtx timer_idx e cp (WAIT_ABANDONED_0 # ws) = Some (RET None)"
| "wait_mtx timer_idx e cp (WAIT_OBJECT_1 handled # ws) =
     (if handled then wait_mtx timer_idx e cp ws else Some (RET (Some EINTR)))"
| "wait_mtx timer_idx e cp (WAIT_OBJECT_2 # ws) =
     (if timer_idx \<noteq> 2 \<and> cp then Some THREAD_EXIT else Some (RET (Some ETIMEDOUT)))"
| "wait_mtx timer_idx e cp (WAIT_OBJECT_3 # ws) = Some (RET (Some ETIMEDOUT))"
| "wait_mtx timer_idx e cp (WAIT_FAILED # ws) = Some (RET (Some e))"

text \<open>The closing \<open>if (timer_idx)\<close> of \<open>ipc_cond_timedwait\<close>.\<close>

definition timer_cleanup :: "nat \<Rightarrow> errno option \<Rightarrow> event list" where
  "timer_cleanup timer_idx r =
     (if timer_idx \<noteq> 0
      then (if r \<noteq> Some ETIMEDOUT then [CANCEL_TIMER] else []) @ [CLOSE_TIMER]
      else [])"

text \<open>\<open>ipc_cond_timedwait\<close> from \<open>ResetEvent\<close> on; \<open>tr\<close> is what the call has
  done so far.\<close>

definition cond_wait ::
  "cond \<Rightarrow> nat \<Rightarrow> event list \<Rightarrow> wait_env \<Rightarrow> mq_hdr \<Rightarrow> (wait_ret \<times> mq_hdr \<times> event list) option"
where
  "cond_wait evt timer_idx tr w h =
     (case release_mutex w of
        Some e \<Rightarrow> Some (RET (Some e), h, tr @ [RESET_EVENT evt])
      | None \<Rightarrow>
          (let h' = others w h; tr1 = tr @ [RESET_EVENT evt, RELEASE_MUTEX] in
           case wait_evt timer_idx (win_error w) (evt_wait w) of
             None \<Rightarrow> None
           | Some THREAD_EXIT \<Rightarrow> Some (THREAD_EXIT, h', tr1)
           | Some (RET (Some e)) \<Rightarrow>
               Some (RET (Some e), h', tr1 @ timer_cleanup timer_idx (Some e))
           | Some (RET None) \<Rightarrow>
               (case wait_mtx timer_idx (win_error w) (cancel_pending w) (mtx_wait w) of
                  None \<Rightarrow> None
                | Some THREAD_EXIT \<Rightarrow> Some (THREAD_EXIT, h', tr1)
                | Some (RET (Some e)) \<Rightarrow>
                    Some (RET (Some e), h', tr1 @ timer_cleanup timer_idx (Some e))
                | Some (RET None) \<Rightarrow>
                    Some (RET None, h', tr1 @ [ACQUIRE_MUTEX] @ timer_cleanup timer_idx None))))"

definition ipc_cond_timedwait ::
  "platform \<Rightarrow> cond \<Rightarrow> timespec option \<Rightarrow> wait_env \<Rightarrow> mq_hdr
     \<Rightarrow> (wait_ret \<times> mq_hdr \<times> event list) option"
where
  "ipc_cond_timedwait P evt abstime w h =
     (let cnt = (if cancel_event w then 3 else 2) in
      case abstime of
        None \<Rightarrow> cond_wait evt 0 [] w h
      | Some ts \<Rightarrow>
          if \<not> valid_timespec P ts then Some (RET (Some EINVAL), h, [])
          else
            (case nt_create_timer w of
               Some e \<Rightarrow> Some (RET (Some e), h, [])
             | None \<Rightarrow>
                 (case nt_set_timer w of
                    Some e \<Rightarrow> Some (RET (Some e), h, [CREATE_TIMER, CLOSE_TIMER])
                  | None \<Rightarrow> cond_wait evt cnt [CREATE_TIMER, SET_TIMER] w h)))"


subsection \<open>Queue operations\<close>

text \<open>What the caller's process and the system contribute to one queue
  call: whether \<open>pthread_testcancel\<close> at entry finds the thread cancelled,
  the \<open>mq_info\<close> that \<open>get_mqinfo\<close> finds for the descriptor (\<open>None\<close>: a
  null pointer, whose dereference the \<open>__try\<close> block turns into \<open>EBADF\<close>),
  the result of acquiring the mutex, and one \<open>wait_env\<close> for each time the
  call waits on a condition.\<close>

record call_env =
  testcancel :: bool
  fdget :: "mq_info option"
  lock_result :: cygwait_result
  waits :: "wait_env list"

text \<open>\<open>while (b) { ret = ipc_cond_timedwait (...); if (ret != 0) leave; }\<close>.
  A call still waiting when the supplied wait results are used up has not
  returned.\<close>

fun wait_while ::
  "(mq_hdr \<Rightarrow> bool) \<Rightarrow> platform \<Rightarrow> cond \<Rightarrow> timespec option \<Rightarrow> wait_env list \<Rightarrow> mq_hdr
     \<Rightarrow> event list \<Rightarrow> (wait_ret \<times> mq_hdr \<times> event list) option"
where
  "wait_while b P evt abstime [] h tr = (if b h then None else Some (RET None, h, tr))"
| "wait_while b P evt abstime (w # ws) h tr =
     (if b h then
        (case ipc_cond_timedwait P evt abstime w h of
           None \<Rightarrow> None
         | Some (r, h', tr') \<Rightarrow>
             (case r of
                RET None \<Rightarrow> wait_while b P evt abstime ws h' (tr @ tr')
              | _ \<Rightarrow> Some (r, h', tr @ tr')))
      else Some (RET None, h, tr))"

text \<open>\<open>memcpy (dst, src, n)\<close> on the bytes of a buffer.\<close>

definition memcpy :: "string \<Rightarrow> string \<Rightarrow> nat \<Rightarrow> string" where
  "memcpy dst src n = take n src @ drop n dst"

text \<open>\<open>pmsghdr\<close> points either at \<open>mqh_head\<close> (the source casts its address to
  a \<open>msg_hdr\<close> pointer, so that \<open>msg_next\<close> is the head field) or at a slot.\<close>

datatype link = HEAD | SLOT int

text \<open>\<open>pmsghdr->msg_next = v\<close>.\<close>

fun set_next :: "link \<Rightarrow> int \<Rightarrow> mq_hdr \<Rightarrow> mq_hdr" where
  "set_next HEAD v h = h\<lparr>mqh_head := int32_t v\<rparr>"
| "set_next (SLOT i) v h = h\<lparr>mptr := (mptr h)(i := (mptr h i)\<lparr>msg_next := int32_t v\<rparr>)\<rparr>"

text \<open>The loop "find right place for message in linked list" of \<open>_mq_send\<close>
  together with the \<open>if (index == 0)\<close> that follows it.  The loop follows
  links in shared memory and need not terminate on a cyclic list.\<close>

partial_function (option) find_place ::
  "nat \<Rightarrow> int \<Rightarrow> int \<Rightarrow> link \<Rightarrow> mq_hdr \<Rightarrow> mq_hdr option"
where
  "find_place prio freeindex index pmsghdr h =
     (if index \<noteq> 0 then
        (if prio > msg_prio (mptr h index)
         then Some (set_next pmsghdr freeindex (set_next (SLOT freeindex) index h))
         else find_place prio freeindex (msg_next (mptr h index)) (SLOT index) h)
      else Some (set_next (SLOT freeindex) 0 (set_next pmsghdr freeindex h)))"

text \<open>The block \<open>if (attr->mq_curmsgs == 0)\<close> of \<open>_mq_send\<close>: the notification.\<close>

definition notify_owner :: "mq_hdr \<Rightarrow> mq_hdr \<times> event list" where
  "notify_owner h =
     (if mqh_pid h \<noteq> 0 \<and> mqh_nwait h = 0
      then (h\<lparr>mqh_pid := 0\<rparr>,
            if sigev_notify (mqh_event h) = SIGEV_SIGNAL
            then [SIGQUEUE (mqh_pid h) (sigev_signo (mqh_event h)) (sigev_value (mqh_event h))]
            else [])
      else (h, []))"

text \<open>\<open>_mq_send\<close> from "nmsghdr will point to new message" to the end.\<close>

definition enqueue_msg ::
  "string \<Rightarrow> nat \<Rightarrow> mq_hdr \<Rightarrow> event list \<Rightarrow> (unit ret \<times> mq_hdr \<times> event list) option"
where
  "enqueue_msg ptr prio h tr =
     (let freeindex = mqh_free h in
      if freeindex = 0 then Some (Fatal, h, tr)
      else
        (let nmsghdr = mptr h freeindex;
             h1 = h\<lparr>mptr := (mptr h)(freeindex := nmsghdr
                    \<lparr>msg_len := int32_t (int (length ptr)),
                     msg_prio := prio,
                     msg_body := memcpy (msg_body nmsghdr) ptr (length ptr)\<rparr>)\<rparr>;
             h2 = h1\<lparr>mqh_free := msg_next (mptr h1 freeindex)\<rparr>
         in case find_place prio freeindex (mqh_head h2) HEAD h2 of
              None \<Rightarrow> None
            | Some h3 \<Rightarrow>
                Some (Ok (),
                      h3\<lparr>mqh_attr := (mqh_attr h3)\<lparr>mq_curmsgs := mq_curmsgs (mqh_attr h3) + 1\<rparr>\<rparr>,
                      tr @ (if mq_curmsgs (mqh_attr h3) = 0 then [SET_EVENT WAITRECV] else [])
                         @ [RELEASE_MUTEX])))"

definition queue_full :: "mq_hdr \<Rightarrow> bool" where
  "queue_full h = (mq_curmsgs (mqh_attr h) \<ge> mq_maxmsg (mqh_attr h))"

definition queue_empty :: "mq_hdr \<Rightarrow> bool" where
  "queue_empty h = (mq_curmsgs (mqh_attr h) = 0)"

text \<open>\<open>_mq_send (mqd, ptr, len, prio, abstime)\<close>; the message is the byte string
  \<open>ptr\<close> and \<open>len\<close> its length.\<close>

definition u_mq_send ::
  "platform \<Rightarrow> call_env \<Rightarrow> string \<Rightarrow> nat \<Rightarrow> timespec option \<Rightarrow> mq_hdr
     \<Rightarrow> (unit ret \<times> mq_hdr \<times> event list) option"
where
  "u_mq_send P E ptr prio abstime h =
     (if testcancel E then Some (Cancelled, h, [])
      else case fdget E of
        None \<Rightarrow> Some (Err EBADF, h, [])
      | Some mqinfo \<Rightarrow>
          if mqi_magic mqinfo \<noteq> MQI_MAGIC P then Some (Err EBADF, h, [])
          else if prio \<ge> MQ_PRIO_MAX P then Some (Err EINVAL, h, [])
          else if ipc_mutex_lock (lock_result E) \<noteq> 0
            then Some (Err (ERRNO (ipc_mutex_lock (lock_result E))), h, [])
          else if int (length ptr) > size_t (mq_msgsize (mqh_attr h))
            then Some (Err EMSGSIZE, h, [ACQUIRE_MUTEX, RELEASE_MUTEX])
          else if mq_curmsgs (mqh_attr h) = 0
            then enqueue_msg ptr prio (fst (notify_owner h)) (ACQUIRE_MUTEX # snd (notify_owner h))
          else if mq_curmsgs (mqh_attr h) \<ge> mq_maxmsg (mqh_attr h) then
            (if O_NONBLOCK \<in> mqi_flags mqinfo
             then Some (Err EAGAIN, h, [ACQUIRE_MUTEX, RELEASE_MUTEX])
             else
               (case wait_while queue_full P WAITSEND abstime (waits E) h [ACQUIRE_MUTEX] of
                  None \<Rightarrow> None
                | Some (r, h', tr) \<Rightarrow>
                    (case r of
                       THREAD_EXIT \<Rightarrow> Some (Cancelled, h', tr)
                     | RET (Some e) \<Rightarrow> Some (Err e, h', tr @ [RELEASE_MUTEX])
                     | RET None \<Rightarrow> enqueue_msg ptr prio h' tr)))
          else enqueue_msg ptr prio h [ACQUIRE_MUTEX])"

definition mq_send :: "platform \<Rightarrow> call_env \<Rightarrow> string \<Rightarrow> nat \<Rightarrow> mq_hdr
     \<Rightarrow> (unit ret \<times> mq_hdr \<times> event list) option" where
  "mq_send P E ptr prio h = u_mq_send P E ptr prio None h"

definition mq_timedsend :: "platform \<Rightarrow> call_env \<Rightarrow> string \<Rightarrow> nat \<Rightarrow> timespec \<Rightarrow> mq_hdr
     \<Rightarrow> (unit ret \<times> mq_hdr \<times> event list) option" where
  "mq_timedsend P E ptr prio abstime h = u_mq_send P E ptr prio (Some abstime) h"

text \<open>What a successful receive hands back: the return value (the length),
  the bytes copied to the caller's buffer, and the priority when the caller
  asked for it (\<open>priop != NULL\<close>).\<close>

record received =
  rcv_len :: int
  rcv_bytes :: string
  rcv_prio :: "nat option"

text \<open>\<open>_mq_receive\<close> from the test of \<open>mqh_head\<close> to the end.\<close>

definition dequeue_msg ::
  "bool \<Rightarrow> mq_hdr \<Rightarrow> event list \<Rightarrow> received ret \<times> mq_hdr \<times> event list"
where
  "dequeue_msg priop h tr =
     (let index = mqh_head h in
      if index = 0 then (Fatal, h, tr)
      else
        (let msghdr = mptr h index;
             h1 = h\<lparr>mqh_head := msg_next msghdr\<rparr>;
             len = msg_len msghdr;
             h2 = h1\<lparr>mptr := (mptr h1)(index := (mptr h1 index)\<lparr>msg_next := int32_t (mqh_free h1)\<rparr>)\<rparr>;
             h3 = h2\<lparr>mqh_free := index\<rparr>
         in (Ok \<lparr>rcv_len = len,
                 rcv_bytes = take (nat len) (msg_body msghdr),
                 rcv_prio = (if priop then Some (msg_prio msghdr) else None)\<rparr>,
             h3\<lparr>mqh_attr := (mqh_attr h3)\<lparr>mq_curmsgs := mq_curmsgs (mqh_attr h3) - 1\<rparr>\<rparr>,
             tr @ (if mq_curmsgs (mqh_attr h3) = mq_maxmsg (mqh_attr h3)
                   then [SET_EVENT WAITSEND] else [])
                @ [RELEASE_MUTEX])))"

text \<open>\<open>_mq_receive (mqd, ptr, maxlen, priop, abstime)\<close>.\<close>

definition u_mq_receive ::
  "platform \<Rightarrow> call_env \<Rightarrow> nat \<Rightarrow> bool \<Rightarrow> timespec option \<Rightarrow> mq_hdr
     \<Rightarrow> (received ret \<times> mq_hdr \<times> event list) option"
where
  "u_mq_receive P E maxlen priop abstime h =
     (if testcancel E then Some (Cancelled, h, [])
      else case fdget E of
        None \<Rightarrow> Some (Err EBADF, h, [])
      | Some mqinfo \<Rightarrow>
          if mqi_magic mqinfo \<noteq> MQI_MAGIC P then Some (Err EBADF, h, [])
          else if ipc_mutex_lock (lock_result E) \<noteq> 0
            then Some (Err (ERRNO (ipc_mutex_lock (lock_result E))), h, [])
          else if int maxlen < size_t (mq_msgsize (mqh_attr h))
            then Some (Err EMSGSIZE, h, [ACQUIRE_MUTEX, RELEASE_MUTEX])
          else if mq_curmsgs (mqh_attr h) = 0 then
            (if O_NONBLOCK \<in> mqi_flags mqinfo
             then Some (Err EAGAIN, h, [ACQUIRE_MUTEX, RELEASE_MUTEX])
             else
               (case wait_while queue_empty P WAITRECV abstime (waits E)
                       (h\<lparr>mqh_nwait := mqh_nwait h + 1\<rparr>) [ACQUIRE_MUTEX] of
                  None \<Rightarrow> None
                | Some (r, h', tr) \<Rightarrow>
                    (case r of
                       THREAD_EXIT \<Rightarrow> Some (Cancelled, h', tr)
                     | RET (Some e) \<Rightarrow> Some (Err e, h', tr @ [RELEASE_MUTEX])
                     | RET None \<Rightarrow>
                         Some (dequeue_msg priop (h'\<lparr>mqh_nwait := mqh_nwait h' - 1\<rparr>) tr))))
          else Some (dequeue_msg priop h [ACQUIRE_MUTEX]))"

definition mq_receive :: "platform \<Rightarrow> call_env \<Rightarrow> nat \<Rightarrow> bool \<Rightarrow> mq_hdr
     \<Rightarrow> (received ret \<times> mq_hdr \<times> event list) option" where
  "mq_receive P E maxlen priop h = u_mq_receive P E maxlen priop None h"

definition mq_timedreceive :: "platform \<Rightarrow> call_env \<Rightarrow> nat \<Rightarrow> bool \<Rightarrow> timespec \<Rightarrow> mq_hdr
     \<Rightarrow> (received ret \<times> mq_hdr \<times> event list) option" where
  "mq_timedreceive P E maxlen priop abstime h = u_mq_receive P E maxlen priop (Some abstime) h"


subsection \<open>Attributes and notification\<close>

text \<open>\<open>mq_getattr (mqd, mqstat)\<close>: on success, what is stored in \<open>*mqstat\<close>.\<close>

definition mq_getattr :: "platform \<Rightarrow> call_env \<Rightarrow> mq_hdr \<Rightarrow> mq_attr ret" where
  "mq_getattr P E h =
     (case fdget E of
        None \<Rightarrow> Err EBADF
      | Some mqinfo \<Rightarrow>
          if mqi_magic mqinfo \<noteq> MQI_MAGIC P then Err EBADF
          else if ipc_mutex_lock (lock_result E) \<noteq> 0
            then Err (ERRNO (ipc_mutex_lock (lock_result E)))
          else Ok \<lparr>mq_flags = mqi_flags mqinfo,
                   mq_maxmsg = mq_maxmsg (mqh_attr h),
                   mq_msgsize = mq_msgsize (mqh_attr h),
                   mq_curmsgs = mq_curmsgs (mqh_attr h)\<rparr>)"

text \<open>\<open>mq_setattr (mqd, mqstat, omqstat)\<close>; \<open>want_old\<close> is \<open>omqstat != NULL\<close>.
  The result is the return value with the contents of \<open>*omqstat\<close> (when
  wanted), the descriptor's \<open>mq_info\<close> after the call, and the segment.\<close>

definition mq_setattr ::
  "platform \<Rightarrow> call_env \<Rightarrow> mq_attr \<Rightarrow> bool \<Rightarrow> mq_hdr
     \<Rightarrow> mq_attr option ret \<times> mq_info option \<times> mq_hdr"
where
  "mq_setattr P E mqstat want_old h =
     (case fdget E of
        None \<Rightarrow> (Err EBADF, None, h)
      | Some mqinfo \<Rightarrow>
          if mqi_magic mqinfo \<noteq> MQI_MAGIC P then (Err EBADF, Some mqinfo, h)
          else if ipc_mutex_lock (lock_result E) \<noteq> 0
            then (Err (ERRNO (ipc_mutex_lock (lock_result E))), Some mqinfo, h)
          else
            (Ok (if want_old
                 then Some \<lparr>mq_flags = mqi_flags mqinfo,
                            mq_maxmsg = mq_maxmsg (mqh_attr h),
                            mq_msgsize = mq_msgsize (mqh_attr h),
                            mq_curmsgs = mq_curmsgs (mqh_attr h)\<rparr>
                 else None),
             Some (if O_NONBLOCK \<in> mq_flags mqstat
                   then mqinfo\<lparr>mqi_flags := mqi_flags mqinfo \<union> {O_NONBLOCK}\<rparr>
                   else mqinfo\<lparr>mqi_flags := mqi_flags mqinfo - {O_NONBLOCK}\<rparr>),
             h))"

text \<open>\<open>mq_notify (mqd, notification)\<close>; \<open>pid\<close> is \<open>getpid ()\<close> and \<open>owner_gone\<close>
  says that \<open>kill (mqh_pid, 0)\<close> fails with \<open>ESRCH\<close>.\<close>

definition mq_notify ::
  "platform \<Rightarrow> call_env \<Rightarrow> sigevent option \<Rightarrow> int \<Rightarrow> bool \<Rightarrow> mq_hdr \<Rightarrow> unit ret \<times> mq_hdr"
where
  "mq_notify P E notification pid owner_gone h =
     (case fdget E of
        None \<Rightarrow> (Err EBADF, h)
      | Some mqinfo \<Rightarrow>
          if mqi_magic mqinfo \<noteq> MQI_MAGIC P then (Err EBADF, h)
          else if ipc_mutex_lock (lock_result E) \<noteq> 0
            then (Err (ERRNO (ipc_mutex_lock (lock_result E))), h)
          else
            (case notification of
               None \<Rightarrow> (Ok (), if mqh_pid h = pid then h\<lparr>mqh_pid := 0\<rparr> else h)
             | Some ev \<Rightarrow>
                 if mqh_pid h \<noteq> 0 \<and> \<not> owner_gone then (Err EBUSY, h)
                 else (Ok (), h\<lparr>mqh_pid := pid, mqh_event := ev\<rparr>)))"

subsection \<open>Creating a queue\<close>

definition sizeof_msg_hdr :: int where
  "sizeof_msg_hdr = 12"

definition roundup :: "int \<Rightarrow> int \<Rightarrow> int" where
  "roundup x y = ((x + (y - 1)) div y) * y"

definition MSGSIZE :: "platform \<Rightarrow> int \<Rightarrow> int" where
  "MSGSIZE P i = roundup i (sizeof_long P)"

definition MAX_TRIES :: nat where
  "MAX_TRIES = 10"

definition defattr :: mq_attr where
  "defattr = \<lparr>mq_flags = {}, mq_maxmsg = 10, mq_msgsize = 8192, mq_curmsgs = 0\<rparr>"

text \<open>The loop that threads all slots but the last onto the free list:
  \<open>for (i = 0; i < attr->mq_maxmsg - 1; i++)\<close>.  The running offset \<open>index\<close>
  is a \<open>long\<close>; the link it is stored into is an \<open>int32_t\<close>.\<close>

function free_loop ::
  "int \<Rightarrow> int \<Rightarrow> int \<Rightarrow> int \<Rightarrow> (int \<Rightarrow> msg_hdr) \<Rightarrow> int \<times> (int \<Rightarrow> msg_hdr)"
where
  "free_loop i maxmsg step index m =
     (if i < maxmsg - 1
      then free_loop (i + 1) maxmsg step (index + step)
             (m(index := (m index)\<lparr>msg_next := int32_t (index + step)\<rparr>))
      else (index, m))"
  by pat_completeness auto
termination
  by (relation "measure (\<lambda>(i, maxmsg, step, index, m). nat (maxmsg - 1 - i))") auto

text \<open>"Initialize header at beginning of file; create free list with all
  messages on it": \<open>raw\<close> is the freshly mapped segment.\<close>

definition init_hdr :: "platform \<Rightarrow> mq_attr \<Rightarrow> mq_hdr \<Rightarrow> mq_hdr" where
  "init_hdr P attr raw =
     (let msgsize = MSGSIZE P (mq_msgsize attr);
          h = raw\<lparr>mqh_attr := \<lparr>mq_flags = {}, mq_maxmsg = mq_maxmsg attr,
                                mq_msgsize = mq_msgsize attr, mq_curmsgs = 0\<rparr>,
                  mqh_nwait := 0, mqh_pid := 0, mqh_head := 0,
                  mqh_magic := MQI_MAGIC P, mqh_free := sizeof_mq_hdr P\<rparr>;
          r = free_loop 0 (mq_maxmsg attr) (sizeof_msg_hdr + msgsize) (sizeof_mq_hdr P) (mptr h)
      in h\<lparr>mptr := (snd r)(fst r := (snd r (fst r))\<lparr>msg_next := 0\<rparr>)\<rparr>)"

text \<open>The file-system side of one pass of \<open>mq_open\<close> from the label \<open>again\<close>:
  results of the exclusive \<open>open\<close>, of \<open>ftruncate64\<close>, of \<open>cygheap_fdnew\<close>,
  of \<open>build_fh_dev\<close>, of \<open>mqinfo_create\<close> (the descriptor data and the
  freshly mapped segment), of \<open>fchmod\<close>, of the plain \<open>open\<close>, of the
  \<open>i\<close>-th \<open>stat64\<close> (on success: whether \<open>S_IXUSR\<close> is still set) and of
  \<open>mqinfo_open\<close>.  \<open>None\<close> is success.\<close>

record open_try =
  creat_open :: "errno option"
  ftruncate64 :: "errno option"
  fdnew :: "errno option"
  build_fh :: "errno option"
  mqinfo_create :: "errno + mq_info \<times> mq_hdr"
  fchmod :: "errno option"
  plain_open :: "errno option"
  stat64 :: "nat \<Rightarrow> errno + bool"
  mqinfo_open :: "errno + mq_info \<times> mq_hdr"

datatype fs_event = UNLINK | CLOSE_FD | FH_CLOSE

text \<open>One pass either ends the call or jumps back to \<open>again\<close>, having closed
  what it had opened.\<close>

datatype 'a step = AGAIN "fs_event list" | FINISHED 'a

text \<open>The \<open>O_CREAT\<close> branch after the exclusive \<open>open\<close> succeeded.\<close>

definition create_queue ::
  "platform \<Rightarrow> mq_attr option \<Rightarrow> open_try \<Rightarrow> (mq_info \<times> mq_hdr) ret \<times> fs_event list"
where
  "create_queue P attr_arg t =
     (if (case attr_arg of
            None \<Rightarrow> False
          | Some a \<Rightarrow> mq_maxmsg a \<le> 0 \<or> mq_maxmsg a > 32768
                       \<or> mq_msgsize a \<le> 0 \<or> mq_msgsize a > 1048576)
      then (Err EINVAL, [UNLINK, CLOSE_FD])
      else
        (let attr = (case attr_arg of None \<Rightarrow> defattr | Some a \<Rightarrow> a) in
         case ftruncate64 t of
           Some e \<Rightarrow> (Err e, [UNLINK, CLOSE_FD])
         | None \<Rightarrow>
         (case fdnew t of
           Some e \<Rightarrow> (Err e, [UNLINK, CLOSE_FD])
         | None \<Rightarrow>
         (case build_fh t of
           Some e \<Rightarrow> (Err e, [UNLINK, CLOSE_FD])
         | None \<Rightarrow>
         (case mqinfo_create t of
           Inl e \<Rightarrow> (Err e, [UNLINK, CLOSE_FD, FH_CLOSE])
         | Inr (mqinfo, raw) \<Rightarrow>
         (case fchmod t of
           Some e \<Rightarrow> (Err e, [UNLINK, CLOSE_FD, FH_CLOSE])
         | None \<Rightarrow> (Ok (mqinfo, init_hdr P attr raw), [CLOSE_FD])))))))"

text \<open>"Make certain initialization is complete": the polling loop.\<close>

datatype poll = READY | STAT_FAILED errno | TIMED_OUT

function poll_init :: "(nat \<Rightarrow> errno + bool) \<Rightarrow> nat \<Rightarrow> poll" where
  "poll_init st i =
     (if i < MAX_TRIES
      then (case st i of
              Inl e \<Rightarrow> STAT_FAILED e
            | Inr xusr \<Rightarrow> if \<not> xusr then READY else poll_init st (i + 1))
      else TIMED_OUT)"
  by pat_completeness auto
termination
  by (relation "measure (\<lambda>(st, i). MAX_TRIES - i)") auto

text \<open>The code from the label \<open>exists\<close>.\<close>

definition attach_queue ::
  "oflag set \<Rightarrow> open_try \<Rightarrow> ((mq_info \<times> mq_hdr) ret \<times> fs_event list) step"
where
  "attach_queue oflag t =
     (case plain_open t of
        Some e \<Rightarrow> if e = ENOENT \<and> O_CREAT \<in> oflag then AGAIN [] else FINISHED (Err e, [])
      | None \<Rightarrow>
          (case poll_init (stat64 t) 0 of
             STAT_FAILED e \<Rightarrow>
               if e = ENOENT \<and> O_CREAT \<in> oflag then AGAIN [CLOSE_FD]
               else FINISHED (Err e, [CLOSE_FD])
           | TIMED_OUT \<Rightarrow> FINISHED (Err ETIMEDOUT, [CLOSE_FD])
           | READY \<Rightarrow>
               (case fdnew t of
                  Some e \<Rightarrow> FINISHED (Err e, [CLOSE_FD])
                | None \<Rightarrow>
               (case build_fh t of
                  Some e \<Rightarrow> FINISHED (Err e, [CLOSE_FD])
                | None \<Rightarrow>
               (case mqinfo_open t of
                  Inl e \<Rightarrow> FINISHED (Err e, [CLOSE_FD, FH_CLOSE])
                | Inr q \<Rightarrow> FINISHED (Ok q, [CLOSE_FD]))))))"

text \<open>\<open>mq_open (name, oflag, mode, attr)\<close> after \<open>check_path\<close> accepted the
  name; \<open>oflag\<close> is already masked to \<open>O_CREAT\<close>, \<open>O_EXCL\<close> (the source
  strips \<open>O_NONBLOCK\<close> and hands it to \<open>mqinfo_create\<close> and \<open>mqinfo_open\<close>).
  Each \<open>goto again\<close> takes the next \<open>open_try\<close>; a call that keeps
  jumping back has not returned.\<close>

fun mq_open ::
  "platform \<Rightarrow> oflag set \<Rightarrow> mq_attr option \<Rightarrow> open_try list
     \<Rightarrow> ((mq_info \<times> mq_hdr) ret \<times> fs_event list) option"
where
  "mq_open P oflag attr [] = None"
| "mq_open P oflag attr (t # ts) =
     (if O_CREAT \<in> oflag \<and> creat_open t = None then Some (create_queue P attr t)
      else if O_CREAT \<in> oflag \<and> \<not> (creat_open t = Some EEXIST \<and> O_EXCL \<notin> oflag)
        then Some (Err (case creat_open t of Some e \<Rightarrow> e | None \<Rightarrow> EEXIST), [])
      else
        (case attach_queue oflag t of
           AGAIN tr \<Rightarrow> map_option (\<lambda>r. (fst r, tr @ snd r)) (mq_open P oflag attr ts)
         | FINISHED r \<Rightarrow> Some r))"

subsection \<open>Closing a named semaphore\<close>

record sem_finfo =
  sf_value :: nat
  sf_hash :: nat
  sf_luid :: int

text \<open>The calls \<open>_sem_close\<close> makes: \<open>semaphore::getinternal\<close> (\<open>None\<close>: it
  returned \<open>-1\<close>; otherwise the descriptor and the live record), the results of
  \<open>fcntl64\<close> in \<open>ipc_flock::lock\<close>, of \<open>lseek64\<close>, of \<open>write\<close> and of
  \<open>semaphore::close\<close>.\<close>

record sem_env =
  getinternal :: "(int \<times> sem_finfo) option"
  flock_lock :: int
  lseek64 :: int
  write_ret :: int
  semaphore_close :: int

datatype sem_event =
    FLOCK int
  | LSEEK int
  | WRITE int sem_finfo
  | SEMAPHORE_CLOSE
  | FUNLOCK int
  | CLOSE int

text \<open>\<open>_sem_close (sem, do_close)\<close>: the return value and what was done.\<close>

definition u_sem_close :: "platform \<Rightarrow> sem_env \<Rightarrow> bool \<Rightarrow> int \<times> sem_event list" where
  "u_sem_close P E do_close =
     (case getinternal E of
        None \<Rightarrow> (- 1, [])
      | Some (fd, sf) \<Rightarrow>
          (let r =
             (if flock_lock E \<noteq> 0 then (- 1, [FLOCK fd])
              else if lseek64 E = - 1 then (- 1, [FLOCK fd, LSEEK fd])
              else if write_ret E \<noteq> sizeof_sem_finfo P
                then (- 1, [FLOCK fd, LSEEK fd, WRITE fd sf])
              else if do_close
                then (semaphore_close E, [FLOCK fd, LSEEK fd, WRITE fd sf, SEMAPHORE_CLOSE])
              else (0, [FLOCK fd, LSEEK fd, WRITE fd sf]))
           in (fst r, snd r @ [FUNLOCK fd, CLOSE fd])))"

definition sem_close :: "platform \<Rightarrow> sem_env \<Rightarrow> int \<times> sem_event list" where
  "sem_close P E = u_sem_close P E True"


subsection \<open>Lists threaded through the slots\<close>

text \<open>\<open>chain m i xs\<close>: following \<open>msg_next\<close> from offset \<open>i\<close> visits exactly
  the slots \<open>xs\<close> and then reaches the end marker \<open>0\<close>.\<close>

primrec chain :: "(int \<Rightarrow> msg_hdr) \<Rightarrow> int \<Rightarrow> int list \<Rightarrow> bool" where
  "chain m i [] = (i = 0)"
| "chain m i (x # xs) = (i = x \<and> x \<noteq> 0 \<and> chain m (msg_next (m x)) xs)"

text \<open>A slot offset lies inside the segment and fits the 32-bit link field.\<close>

definition slot_offset :: "int \<Rightarrow> bool" where
  "slot_offset i = (0 < i \<and> i < 2147483648)"

text \<open>The free list is \<open>fs\<close>, the active list is \<open>as\<close>, and no slot is on both
  or twice on one.\<close>

definition mq_lists :: "mq_hdr \<Rightarrow> int list \<Rightarrow> int list \<Rightarrow> bool" where
  "mq_lists h fs as =
     (chain (mptr h) (mqh_free h) fs \<and> chain (mptr h) (mqh_head h) as
      \<and> distinct (fs @ as) \<and> list_all slot_offset (fs @ as))"

text \<open>The header invariant as the data model words it: the live count lies
  between \<open>0\<close> and the capacity, and the two list lengths add up to the
  capacity.\<close>

definition hdr_inv_lists :: "mq_hdr \<Rightarrow> int list \<Rightarrow> int list \<Rightarrow> bool" where
  "hdr_inv_lists h fs as =
     (mq_lists h fs as
      \<and> 0 \<le> mq_curmsgs (mqh_attr h)
      \<and> mq_curmsgs (mqh_attr h) \<le> mq_maxmsg (mqh_attr h)
      \<and> int (length fs) + int (length as) = mq_maxmsg (mqh_attr h))"

text \<open>The lists are read off the segment by following the links, for at most
  as many steps as the capacity allows; a walk that has not reached the end
  marker by then yields no list.\<close>

fun walk :: "nat \<Rightarrow> (int \<Rightarrow> msg_hdr) \<Rightarrow> int \<Rightarrow> int list option" where
  "walk 0 m i = (if i = 0 then Some [] else None)"
| "walk (Suc n) m i =
     (if i = 0 then Some [] else map_option (Cons i) (walk n m (msg_next (m i))))"

definition free_list :: "mq_hdr \<Rightarrow> int list option" where
  "free_list h = walk (nat (mq_maxmsg (mqh_attr h))) (mptr h) (mqh_free h)"

definition active_list :: "mq_hdr \<Rightarrow> int list option" where
  "active_list h = walk (nat (mq_maxmsg (mqh_attr h))) (mptr h) (mqh_head h)"

definition hdr_inv :: "mq_hdr \<Rightarrow> bool" where
  "hdr_inv h =
     (case free_list h of
        None \<Rightarrow> False
      | Some fs \<Rightarrow>
          (case active_list h of
             None \<Rightarrow> False
           | Some as \<Rightarrow> hdr_inv_lists h fs as))"

text \<open>The invariant the operations rely on: in addition the live count is the
  length of the active list, and the capacity is at least one.\<close>

definition queue_inv_lists :: "mq_hdr \<Rightarrow> int list \<Rightarrow> int list \<Rightarrow> bool" where
  "queue_inv_lists h fs as =
     (hdr_inv_lists h fs as
      \<and> int (length as) = mq_curmsgs (mqh_attr h)
      \<and> 1 \<le> mq_maxmsg (mqh_attr h))"

definition queue_inv :: "mq_hdr \<Rightarrow> bool" where
  "queue_inv h =
     (case free_list h of
        None \<Rightarrow> False
      | Some fs \<Rightarrow>
          (case active_list h of
             None \<Rightarrow> False
           | Some as \<Rightarrow> queue_inv_lists h fs as))"

text \<open>Where \<open>_mq_send\<close> puts a new slot \<open>f\<close> of priority \<open>p\<close> in the active
  list \<open>xs\<close>: before the first slot of strictly lower priority.\<close>

fun place :: "(int \<Rightarrow> msg_hdr) \<Rightarrow> nat \<Rightarrow> int \<Rightarrow> int list \<Rightarrow> int list" where
  "place m p f [] = [f]"
| "place m p f (x # xs) = (if p > msg_prio (m x) then f # x # xs else x # place m p f xs)"

text \<open>The link a \<open>pmsghdr\<close> pointer designates.\<close>

fun get_next :: "link \<Rightarrow> mq_hdr \<Rightarrow> int" where
  "get_next HEAD h = mqh_head h"
| "get_next (SLOT i) h = msg_next (mptr h i)"

text \<open>The pending messages, in list order: length, payload and priority of
  each slot of the active list.\<close>

type_synonym message = "int \<times> string \<times> nat"

definition message_at :: "mq_hdr \<Rightarrow> int \<Rightarrow> message" where
  "message_at h i =
     (msg_len (mptr h i), take (nat (msg_len (mptr h i))) (msg_body (mptr h i)),
      msg_prio (mptr h i))"

definition messages :: "mq_hdr \<Rightarrow> int list \<Rightarrow> message list" where
  "messages h as = map (message_at h) as"


text \<open>The caller is not cancelled, the descriptor is an open queue and the
  mutex is acquired.\<close>

definition call_ok :: "platform \<Rightarrow> call_env \<Rightarrow> mq_info \<Rightarrow> bool" where
  "call_ok P E mqinfo =
     (\<not> testcancel E \<and> fdget E = Some mqinfo \<and> mqi_magic mqinfo = MQI_MAGIC P
      \<and> ipc_mutex_lock (lock_result E) = 0)"

text \<open>Other processes keep a property of the segment while the caller waits.\<close>

definition others_keep :: "(mq_hdr \<Rightarrow> bool) \<Rightarrow> call_env \<Rightarrow> bool" where
  "others_keep I E = (\<forall>w \<in> set (waits E). \<forall>s. I s \<longrightarrow> I (others w s))"

text \<open>Auxiliary notions for the list surgery of \<open>_mq_send\<close>: the predecessor
  link is outside the list being walked; two segments differ in links only;
  the fields stamped into a newly allocated slot.\<close>

definition link_free :: "link \<Rightarrow> int \<Rightarrow> int list \<Rightarrow> bool" where
  "link_free pmsghdr f xs = (case pmsghdr of HEAD \<Rightarrow> True | SLOT j \<Rightarrow> j \<notin> set xs \<and> j \<noteq> f)"

definition same_payload :: "mq_hdr \<Rightarrow> mq_hdr \<Rightarrow> bool" where
  "same_payload h h' =
     (mqh_attr h' = mqh_attr h \<and> mqh_free h' = mqh_free h \<and> mqh_nwait h' = mqh_nwait h
      \<and> mqh_pid h' = mqh_pid h \<and> mqh_event h' = mqh_event h \<and> mqh_magic h' = mqh_magic h
      \<and> (\<forall>x. msg_len (mptr h' x) = msg_len (mptr h x)
             \<and> msg_prio (mptr h' x) = msg_prio (mptr h x)
             \<and> msg_body (mptr h' x) = msg_body (mptr h x)))"

definition only_links :: "mq_hdr \<Rightarrow> mq_hdr \<Rightarrow> link \<Rightarrow> int \<Rightarrow> int list \<Rightarrow> bool" where
  "only_links h h' pmsghdr f xs =
     (same_payload h h'
      \<and> (\<forall>x. x \<noteq> f \<longrightarrow> x \<notin> set xs \<longrightarrow> pmsghdr \<noteq> SLOT x
             \<longrightarrow> msg_next (mptr h' x) = msg_next (mptr h x))
      \<and> (pmsghdr \<noteq> HEAD \<longrightarrow> mqh_head h' = mqh_head h))"

definition stamp :: "string \<Rightarrow> nat \<Rightarrow> msg_hdr \<Rightarrow> msg_hdr" where
  "stamp ptr prio s = s\<lparr>msg_len := int32_t (int (length ptr)), msg_prio := prio,
                        msg_body := memcpy (msg_body s) ptr (length ptr)\<rparr>"


subsection \<open>A small concrete queue\<close>

text \<open>A platform instance, a zero-filled segment as \<open>ftruncate64\<close> leaves it,
  and the queue of three 16-byte slots that \<open>mq_open\<close> lays out in it; they
  serve to run the model on concrete inputs.\<close>

definition sample_platform :: platform where
  "sample_platform =
     \<lparr>sizeof_mq_hdr = 128, sizeof_long = 8, MQ_PRIO_MAX = 32768, MQI_MAGIC = 2557891634,
      sizeof_sem_finfo = 24,
      valid_timespec = (\<lambda>ts. 0 \<le> tv_sec ts \<and> 0 \<le> tv_nsec ts \<and> tv_nsec ts < 1000000000)\<rparr>"

definition zero_segment :: mq_hdr where
  "zero_segment =
     \<lparr>mqh_attr = \<lparr>mq_flags = {}, mq_maxmsg = 0, mq_msgsize = 0, mq_curmsgs = 0\<rparr>,
      mqh_head = 0, mqh_free = 0, mqh_nwait = 0, mqh_pid = 0,
      mqh_event = \<lparr>sigev_notify = SIGEV_NONE, sigev_signo = 0, sigev_value = 0\<rparr>,
      mqh_magic = 0,
      mptr = (\<lambda>i. \<lparr>msg_next = 0, msg_len = 0, msg_prio = 0, msg_body = []\<rparr>)\<rparr>"

definition sample_attr :: mq_attr where
  "sample_attr = \<lparr>mq_flags = {}, mq_maxmsg = 3, mq_msgsize = 16, mq_curmsgs = 0\<rparr>"

definition sample_queue :: mq_hdr where
  "sample_queue = init_hdr sample_platform sample_attr zero_segment"

definition sample_info :: mq_info where
  "sample_info = \<lparr>mqi_magic = 2557891634, mqi_flags = {}\<rparr>"

definition sample_env :: call_env where
  "sample_env = \<lparr>testcancel = False, fdget = Some sample_info,
                  lock_result = CW_OBJECT_0, waits = []\<rparr>"

text \<open>One wait that ends because the deadline timer fires, while nobody else
  touches the segment.\<close>

definition timeout_wait :: wait_env where
  "timeout_wait =
     \<lparr>cancel_event = False, nt_create_timer = None, nt_set_timer = None,
      release_mutex = None, evt_wait = [WAIT_OBJECT_2], mtx_wait = [],
      win_error = EWIN 5, cancel_pending = False, others = (\<lambda>s. s)\<rparr>"

definition sample_try :: open_try where
  "sample_try =
     \<lparr>creat_open = None, ftruncate64 = None, fdnew = None, build_fh = None,
      mqinfo_create = Inr (sample_info, zero_segment), fchmod = None,
      plain_open = None, stat64 = (\<lambda>i. Inr False),
      mqinfo_open = Inr (sample_info, zero_segment)\<rparr>"

definition sample_sem :: sem_env where
  "sample_sem =
     \<lparr>getinternal = Some (3, \<lparr>sf_value = 7, sf_hash = 99, sf_luid = 1\<rparr>),
      flock_lock = 0, lseek64 = 0, write_ret = 24, semaphore_close = 0\<rparr>"


subsection \<open>Further notions used in the statements\<close>

text \<open>The range check \<open>mq_open\<close> applies to attributes the caller supplies.\<close>

definition attr_out_of_range :: "mq_attr \<Rightarrow> bool" where
  "attr_out_of_range a =
     (mq_maxmsg a \<le> 0 \<or> mq_maxmsg a > 32768 \<or> mq_msgsize a \<le> 0 \<or> mq_msgsize a > 1048576)"


text \<open>The signals queued by a call.\<close>

fun is_sigqueue :: "event \<Rightarrow> bool" where
  "is_sigqueue (SIGQUEUE p s v) = True"
| "is_sigqueue e = False"


text \<open>Further concrete inputs: an attribute block asking for non-blocking
  mode, a non-blocking descriptor, the sample queue with all three slots
  pending, and two segments whose live count disagrees with their lists.\<close>

definition nonblock_attr :: mq_attr where
  "nonblock_attr = \<lparr>mq_flags = {O_NONBLOCK}, mq_maxmsg = 99, mq_msgsize = 99, mq_curmsgs = 99\<rparr>"

definition nonblock_env :: call_env where
  "nonblock_env = sample_env\<lparr>fdget := Some (sample_info\<lparr>mqi_flags := {O_NONBLOCK}\<rparr>)\<rparr>"

definition full_queue :: mq_hdr where
  "full_queue = sample_queue\<lparr>mqh_attr := sample_attr\<lparr>mq_curmsgs := 3\<rparr>, mqh_head := 128, mqh_free := 0\<rparr>"

definition miscounted_full :: mq_hdr where
  "miscounted_full = full_queue\<lparr>mqh_attr := sample_attr\<lparr>mq_curmsgs := 0\<rparr>\<rparr>"

definition miscounted_empty :: mq_hdr where
  "miscounted_empty = sample_queue\<lparr>mqh_attr := sample_attr\<lparr>mq_curmsgs := 1\<rparr>\<rparr>"

text \<open>What a send shows of the notification: its result, the live count, the
  registered process and the signals it queued.\<close>

definition send_view ::
  "(unit ret \<times> mq_hdr \<times> event list) option \<Rightarrow> (unit ret \<times> int \<times> int \<times> event list) option" where
  "send_view r =
     map_option (\<lambda>(x, h, ev). (x, mq_curmsgs (mqh_attr h), mqh_pid h, filter is_sigqueue ev)) r"


text \<open>The sample queue with a signal notification registered by process 42,
  without and with a receiver blocked on it.\<close>

definition armed_queue :: mq_hdr where
  "armed_queue = sample_queue\<lparr>mqh_pid := 42,
     mqh_event := \<lparr>sigev_notify = SIGEV_SIGNAL, sigev_signo = 10, sigev_value = 7\<rparr>\<rparr>"

definition armed_queue_waited :: mq_hdr where
  "armed_queue_waited = armed_queue\<lparr>mqh_nwait := 1\<rparr>"

text \<open>An attribute block within the accepted ranges whose segment exceeds
  2 GiB, and the byte offset of slot \<open>k\<close> in a segment laid out for given
  attributes.\<close>

definition big_attr :: mq_attr where
  "big_attr = \<lparr>mq_flags = {}, mq_maxmsg = 2049, mq_msgsize = 1048576, mq_curmsgs = 0\<rparr>"

definition slot_at :: "platform \<Rightarrow> mq_attr \<Rightarrow> nat \<Rightarrow> int" where
  "slot_at P attr k = sizeof_mq_hdr P + int k * (sizeof_msg_hdr + MSGSIZE P (mq_msgsize attr))"


text \<open>A sequence of sends and receives on one descriptor, all of which
  succeed; \<open>None\<close> when one of them does not.\<close>

datatype queue_op = SEND string nat | RECEIVE nat

fun is_send :: "queue_op \<Rightarrow> bool" where
  "is_send (SEND ptr prio) = True"
| "is_send (RECEIVE maxlen) = False"

fun run_ops :: "platform \<Rightarrow> call_env \<Rightarrow> queue_op list \<Rightarrow> mq_hdr \<Rightarrow> mq_hdr option" where
  "run_ops P E [] h = Some h"
| "run_ops P E (SEND ptr prio # ops) h =
     (case mq_send P E ptr prio h of
        Some (Ok u, h', ev) \<Rightarrow> run_ops P E ops h'
      | _ \<Rightarrow> None)"
| "run_ops P E (RECEIVE maxlen # ops) h =
     (case mq_receive P E maxlen True h of
        Some (Ok r, h', ev) \<Rightarrow> run_ops P E ops h'
      | _ \<Rightarrow> None)"




section \<open>Lists in the segment\<close>

lemma int32_t_slot: "slot_offset i \<Longrightarrow> int32_t i = i"
  by (simp add: slot_offset_def int32_t_def)

lemma int32_t_0: "int32_t 0 = 0"
  by (simp add: int32_t_def)

lemma chain_cong:
  "(\<And>x. x \<in> set xs \<Longrightarrow> msg_next (m' x) = msg_next (m x)) \<Longrightarrow> chain m' i xs = chain m i xs"
  by (induction xs arbitrary: i) auto

lemma chain_upd: "x \<notin> set xs \<Longrightarrow> chain (m(x := v)) i xs = chain m i xs"
  by (rule chain_cong) auto


lemma walk_chain: "walk n m i = Some xs \<Longrightarrow> chain m i xs"
  by (induction n arbitrary: i xs) (auto split: if_splits)

lemma chain_walk: "chain m i xs \<Longrightarrow> length xs \<le> n \<Longrightarrow> walk n m i = Some xs"
proof (induction n arbitrary: i xs)
  case 0
  then show ?case by simp
next
  case (Suc n)
  then show ?case by (cases xs) auto
qed

lemma hdr_inv_ex: "hdr_inv h \<longleftrightarrow> (\<exists>fs as. hdr_inv_lists h fs as)"
proof
  assume "hdr_inv h"
  then show "\<exists>fs as. hdr_inv_lists h fs as"
    by (auto simp: hdr_inv_def split: option.splits)
next
  assume "\<exists>fs as. hdr_inv_lists h fs as"
  then obtain fs as where L: "hdr_inv_lists h fs as" by blast
  then have "int (length fs) + int (length as) = mq_maxmsg (mqh_attr h)"
    by (simp add: hdr_inv_lists_def)
  then have "length fs \<le> nat (mq_maxmsg (mqh_attr h))" "length as \<le> nat (mq_maxmsg (mqh_attr h))"
    by linarith+
  moreover have "chain (mptr h) (mqh_free h) fs" "chain (mptr h) (mqh_head h) as"
    using L by (simp_all add: hdr_inv_lists_def mq_lists_def)
  ultimately have "free_list h = Some fs" "active_list h = Some as"
    by (simp_all add: free_list_def active_list_def chain_walk)
  then show "hdr_inv h" using L by (simp add: hdr_inv_def)
qed

lemma queue_inv_ex: "queue_inv h \<longleftrightarrow> (\<exists>fs as. queue_inv_lists h fs as)"
proof
  assume "queue_inv h"
  then show "\<exists>fs as. queue_inv_lists h fs as"
    by (auto simp: queue_inv_def split: option.splits)
next
  assume "\<exists>fs as. queue_inv_lists h fs as"
  then obtain fs as where L: "queue_inv_lists h fs as" by blast
  then have "int (length fs) + int (length as) = mq_maxmsg (mqh_attr h)"
    by (simp add: queue_inv_lists_def hdr_inv_lists_def)
  then have "length fs \<le> nat (mq_maxmsg (mqh_attr h))" "length as \<le> nat (mq_maxmsg (mqh_attr h))"
    by linarith+
  moreover have "chain (mptr h) (mqh_free h) fs" "chain (mptr h) (mqh_head h) as"
    using L by (simp_all add: queue_inv_lists_def hdr_inv_lists_def mq_lists_def)
  ultimately have "free_list h = Some fs" "active_list h = Some as"
    by (simp_all add: free_list_def active_list_def chain_walk)
  then show "queue_inv h" using L by (simp add: queue_inv_def)
qed

lemma find_place_chain:
  assumes "chain (mptr h) index xs" "distinct xs" "f \<notin> set xs" "slot_offset f"
    "list_all slot_offset xs" "link_free pmsghdr f xs" "get_next pmsghdr h = index"
  shows "\<exists>h'. find_place p f index pmsghdr h = Some h'
           \<and> chain (mptr h') (get_next pmsghdr h') (place (mptr h) p f xs)
           \<and> only_links h h' pmsghdr f xs"
  using assms
proof (induction xs arbitrary: index pmsghdr)
  case Nil
  then have i0: "index = 0" by simp
  have f0: "f \<noteq> 0" using Nil.prems(4) by (simp add: slot_offset_def)
  let ?h' = "set_next (SLOT f) 0 (set_next pmsghdr f h)"
  have fp: "find_place p f index pmsghdr h = Some ?h'"
    by (subst find_place.simps) (simp add: i0)
  have ch: "chain (mptr ?h') (get_next pmsghdr ?h') (place (mptr h) p f [])"
    using Nil.prems(4,6) f0
    by (cases pmsghdr) (auto simp: int32_t_slot int32_t_0 link_free_def)
  have ol: "only_links h ?h' pmsghdr f []"
    by (cases pmsghdr) (auto simp: only_links_def same_payload_def)
  show ?case using fp ch ol by blast
next
  case (Cons x xs)
  from Cons.prems have ix: "index = x" and x0: "x \<noteq> 0"
    and tl: "chain (mptr h) (msg_next (mptr h x)) xs"
    and dx: "x \<notin> set xs" "distinct xs" and fx: "f \<noteq> x" "f \<notin> set xs"
    and so: "slot_offset x" "list_all slot_offset xs" "slot_offset f"
    by auto
  have f0: "f \<noteq> 0" using so by (simp add: slot_offset_def)
  show ?case
  proof (cases "p > msg_prio (mptr h x)")
    case True
    let ?h' = "set_next pmsghdr f (set_next (SLOT f) index h)"
    have fp: "find_place p f index pmsghdr h = Some ?h'"
      using True x0 ix by (subst find_place.simps) simp
    have nx: "\<And>y. y \<in> set (x # xs) \<Longrightarrow> msg_next (mptr ?h' y) = msg_next (mptr h y)"
      using Cons.prems(6) fx by (cases pmsghdr) (auto simp: link_free_def)
    have c1: "chain (mptr ?h') x (x # xs)"
      using chain_cong [of "x # xs" "mptr ?h'" "mptr h" x] nx Cons.prems(1) ix by blast
    have gn: "get_next pmsghdr ?h' = f"
      using so by (cases pmsghdr) (auto simp: int32_t_slot)
    have fn: "msg_next (mptr ?h' f) = x"
      using Cons.prems(6) so ix by (cases pmsghdr) (auto simp: link_free_def int32_t_slot)
    have ch: "chain (mptr ?h') (get_next pmsghdr ?h') (place (mptr h) p f (x # xs))"
      using True gn fn c1 f0 by simp
    have ol: "only_links h ?h' pmsghdr f (x # xs)"
      by (cases pmsghdr) (auto simp: only_links_def same_payload_def)
    show ?thesis using fp ch ol by blast
  next
    case False
    have fp: "find_place p f index pmsghdr h = find_place p f (msg_next (mptr h x)) (SLOT x) h"
      using False x0 ix by (subst find_place.simps) simp
    have lf: "link_free (SLOT x) f xs" using dx fx by (simp add: link_free_def)
    from Cons.IH [OF tl dx(2) fx(2) so(3) so(2) lf]
    obtain h' where r: "find_place p f (msg_next (mptr h x)) (SLOT x) h = Some h'"
      and c: "chain (mptr h') (msg_next (mptr h' x)) (place (mptr h) p f xs)"
      and o: "only_links h h' (SLOT x) f xs"
      by auto
    have px: "pmsghdr \<noteq> SLOT x" using Cons.prems(6) by (auto simp: link_free_def)
    have gn: "get_next pmsghdr h' = x"
    proof (cases pmsghdr)
      case HEAD
      then show ?thesis using o Cons.prems(7) ix by (simp add: only_links_def)
    next
      case (SLOT j)
      then have "j \<noteq> f" "j \<noteq> x" "j \<notin> set xs" using Cons.prems(6) by (auto simp: link_free_def)
      then show ?thesis using o SLOT Cons.prems(7) ix by (simp add: only_links_def)
    qed
    have ch: "chain (mptr h') (get_next pmsghdr h') (place (mptr h) p f (x # xs))"
      using False gn c x0 by simp
    have ol: "only_links h h' pmsghdr f (x # xs)"
      using o px by (auto simp: only_links_def)
    show ?thesis using fp r ch ol by simp
  qed
qed


lemma place_cong:
  "(\<And>x. x \<in> set xs \<Longrightarrow> msg_prio (m' x) = msg_prio (m x)) \<Longrightarrow> place m' p f xs = place m p f xs"
  by (induction xs) auto

lemma set_place: "set (place m p f xs) = insert f (set xs)"
  by (induction xs) auto

lemma length_place: "length (place m p f xs) = Suc (length xs)"
  by (induction xs) auto

lemma distinct_place: "distinct xs \<Longrightarrow> f \<notin> set xs \<Longrightarrow> distinct (place m p f xs)"
  by (induction xs) (auto simp: set_place)

lemma place_takeWhile:
  "place m p f xs = takeWhile (\<lambda>x. p \<le> msg_prio (m x)) xs @ f # dropWhile (\<lambda>x. p \<le> msg_prio (m x)) xs"
  by (induction xs) auto

lemma enqueue_msg_lists:
  assumes L: "mq_lists h (f # fs) as"
  shows "\<exists>h'. enqueue_msg ptr prio h tr =
            Some (Ok (), h',
                  tr @ (if mq_curmsgs (mqh_attr h) = 0 then [SET_EVENT WAITRECV] else [])
                     @ [RELEASE_MUTEX])
          \<and> mq_lists h' fs (place (mptr h) prio f as)
          \<and> mqh_attr h' = (mqh_attr h)\<lparr>mq_curmsgs := mq_curmsgs (mqh_attr h) + 1\<rparr>
          \<and> mqh_nwait h' = mqh_nwait h \<and> mqh_pid h' = mqh_pid h
          \<and> mqh_event h' = mqh_event h \<and> mqh_magic h' = mqh_magic h
          \<and> (\<forall>x. msg_len (mptr h' x) = msg_len ((if x = f then stamp ptr prio else id) (mptr h x))
                \<and> msg_prio (mptr h' x) = msg_prio ((if x = f then stamp ptr prio else id) (mptr h x))
                \<and> msg_body (mptr h' x) = msg_body ((if x = f then stamp ptr prio else id) (mptr h x)))"
proof -
  from L have fr: "mqh_free h = f" and f0: "f \<noteq> 0"
    and cf: "chain (mptr h) (msg_next (mptr h f)) fs"
    and ca: "chain (mptr h) (mqh_head h) as"
    and d: "distinct as" "distinct fs" "f \<notin> set as" "f \<notin> set fs" "set fs \<inter> set as = {}"
    and so: "slot_offset f" "list_all slot_offset as" "list_all slot_offset fs"
    by (auto simp: mq_lists_def)
  define h2 where "h2 = h\<lparr>mptr := (mptr h)(f := stamp ptr prio (mptr h f)),
                          mqh_free := msg_next (mptr h f)\<rparr>"
  have nx2: "\<And>x. msg_next (mptr h2 x) = msg_next (mptr h x)"
    by (simp add: h2_def stamp_def)
  have ca2: "chain (mptr h2) (mqh_head h2) as"
    using ca chain_cong [of as "mptr h2" "mptr h" "mqh_head h"] nx2 by (simp add: h2_def)
  have "link_free HEAD f as" by (simp add: link_free_def)
  from find_place_chain [OF ca2 d(1) d(3) so(1) so(2) this, of prio]
  obtain h3 where fp: "find_place prio f (mqh_head h2) HEAD h2 = Some h3"
    and c3: "chain (mptr h3) (mqh_head h3) (place (mptr h2) prio f as)"
    and o3: "only_links h2 h3 HEAD f as"
    by auto
  have pl: "place (mptr h2) prio f as = place (mptr h) prio f as"
    using d(3) by (intro place_cong) (auto simp: h2_def)
  have sp: "same_payload h2 h3" using o3 by (simp add: only_links_def)
  have nx3: "msg_next (mptr h3 x) = msg_next (mptr h x)" if "x \<in> set fs" for x
  proof -
    have "x \<noteq> f" "x \<notin> set as" using that d by auto
    then have "msg_next (mptr h3 x) = msg_next (mptr h2 x)"
      using o3 by (simp add: only_links_def)
    then show ?thesis using nx2 by simp
  qed
  have cf3: "chain (mptr h3) (mqh_free h3) fs"
  proof -
    have "mqh_free h3 = msg_next (mptr h f)" using sp by (simp add: same_payload_def h2_def)
    moreover have "chain (mptr h3) (msg_next (mptr h f)) fs"
      using chain_cong [of fs "mptr h3" "mptr h"] nx3 cf by blast
    ultimately show ?thesis by simp
  qed
  define h' where "h' = h3\<lparr>mqh_attr := (mqh_attr h3)\<lparr>mq_curmsgs := mq_curmsgs (mqh_attr h3) + 1\<rparr>\<rparr>"
  have at3: "mqh_attr h3 = mqh_attr h" using sp by (simp add: same_payload_def h2_def)
  have run: "enqueue_msg ptr prio h tr =
            Some (Ok (), h',
                  tr @ (if mq_curmsgs (mqh_attr h) = 0 then [SET_EVENT WAITRECV] else [])
                     @ [RELEASE_MUTEX])"
    using fp f0 fr at3
    by (simp add: enqueue_msg_def Let_def h2_def stamp_def h'_def)
  have ls: "mq_lists h' fs (place (mptr h) prio f as)"
    using c3 cf3 d so pl
    by (auto simp: mq_lists_def h'_def distinct_place set_place list_all_iff)
  have rest: "mqh_attr h' = (mqh_attr h)\<lparr>mq_curmsgs := mq_curmsgs (mqh_attr h) + 1\<rparr>"
    "mqh_nwait h' = mqh_nwait h" "mqh_pid h' = mqh_pid h"
    "mqh_event h' = mqh_event h" "mqh_magic h' = mqh_magic h"
    using sp by (simp_all add: h'_def same_payload_def h2_def)
  have pay: "\<And>x. msg_len (mptr h' x) = msg_len ((if x = f then stamp ptr prio else id) (mptr h x))
                \<and> msg_prio (mptr h' x) = msg_prio ((if x = f then stamp ptr prio else id) (mptr h x))
                \<and> msg_body (mptr h' x) = msg_body ((if x = f then stamp ptr prio else id) (mptr h x))"
    using sp by (simp add: h'_def same_payload_def h2_def)
  show ?thesis using run ls rest pay by blast
qed

lemma dequeue_msg_lists:
  assumes L: "mq_lists h fs (a # as)"
  shows "\<exists>h'. dequeue_msg priop h tr =
            (Ok \<lparr>rcv_len = msg_len (mptr h a),
                 rcv_bytes = take (nat (msg_len (mptr h a))) (msg_body (mptr h a)),
                 rcv_prio = (if priop then Some (msg_prio (mptr h a)) else None)\<rparr>,
             h',
             tr @ (if mq_curmsgs (mqh_attr h) = mq_maxmsg (mqh_attr h) then [SET_EVENT WAITSEND] else [])
                @ [RELEASE_MUTEX])
          \<and> mq_lists h' (a # fs) as
          \<and> mqh_attr h' = (mqh_attr h)\<lparr>mq_curmsgs := mq_curmsgs (mqh_attr h) - 1\<rparr>
          \<and> mqh_nwait h' = mqh_nwait h \<and> mqh_pid h' = mqh_pid h
          \<and> mqh_event h' = mqh_event h \<and> mqh_magic h' = mqh_magic h
          \<and> (\<forall>x. msg_len (mptr h' x) = msg_len (mptr h x)
                \<and> msg_prio (mptr h' x) = msg_prio (mptr h x)
                \<and> msg_body (mptr h' x) = msg_body (mptr h x))"
proof -
  from L have hd: "mqh_head h = a" and a0: "a \<noteq> 0"
    and ca: "chain (mptr h) (msg_next (mptr h a)) as"
    and cf: "chain (mptr h) (mqh_free h) fs"
    and d: "distinct as" "distinct fs" "a \<notin> set as" "a \<notin> set fs" "set fs \<inter> set as = {}"
    and so: "slot_offset a" "list_all slot_offset as" "list_all slot_offset fs"
    by (auto simp: mq_lists_def)
  have fr32: "int32_t (mqh_free h) = mqh_free h"
    using cf so(3) by (cases fs) (auto simp: int32_t_slot int32_t_0)
  define h' where "h' = h\<lparr>mqh_head := msg_next (mptr h a),
      mptr := (mptr h)(a := (mptr h a)\<lparr>msg_next := mqh_free h\<rparr>),
      mqh_free := a,
      mqh_attr := (mqh_attr h)\<lparr>mq_curmsgs := mq_curmsgs (mqh_attr h) - 1\<rparr>\<rparr>"
  have run: "dequeue_msg priop h tr =
            (Ok \<lparr>rcv_len = msg_len (mptr h a),
                 rcv_bytes = take (nat (msg_len (mptr h a))) (msg_body (mptr h a)),
                 rcv_prio = (if priop then Some (msg_prio (mptr h a)) else None)\<rparr>,
             h',
             tr @ (if mq_curmsgs (mqh_attr h) = mq_maxmsg (mqh_attr h) then [SET_EVENT WAITSEND] else [])
                @ [RELEASE_MUTEX])"
    using hd a0 fr32 by (simp add: dequeue_msg_def Let_def h'_def)
  have c1: "chain (mptr h') (msg_next (mptr h a)) as"
    using ca d(3) by (simp add: h'_def chain_upd)
  have c2: "chain (mptr h') (mqh_free h) fs"
    using cf d(4) by (simp add: h'_def chain_upd)
  have ls: "mq_lists h' (a # fs) as"
    using c1 c2 a0 d so by (auto simp: mq_lists_def h'_def)
  show ?thesis using run ls by (auto simp: h'_def)
qed

section \<open>The header invariant under send and receive\<close>

lemma timedwait_state:
  "ipc_cond_timedwait P evt abstime w h = Some (r, h', tr) \<Longrightarrow> h' = h \<or> h' = others w h"
  by (auto simp: ipc_cond_timedwait_def cond_wait_def Let_def
      split: option.splits if_splits wait_ret.splits)

lemma wait_while_inv:
  assumes "wait_while b P evt abstime ws h tr = Some (r, h', tr')"
    and "I h" and "\<And>w s. w \<in> set ws \<Longrightarrow> I s \<Longrightarrow> I (others w s)"
  shows "I h' \<and> (r = RET None \<longrightarrow> \<not> b h')"
  using assms
proof (induction ws arbitrary: h tr)
  case Nil
  then show ?case by (auto split: if_splits)
next
  case (Cons w ws)
  show ?case
  proof (cases "b h")
    case False
    then show ?thesis using Cons.prems by auto
  next
    case True
    then obtain r1 h1 tr1 where tw: "ipc_cond_timedwait P evt abstime w h = Some (r1, h1, tr1)"
      using Cons.prems(1) by (auto split: option.splits)
    have I1: "I h1" using timedwait_state [OF tw] Cons.prems(2,3) by auto
    show ?thesis
    proof (cases "r1 = RET None")
      case True
      then have "wait_while b P evt abstime ws h1 (tr @ tr1) = Some (r, h', tr')"
        using Cons.prems(1) tw \<open>b h\<close> by simp
      then show ?thesis using Cons.IH [OF _ I1] Cons.prems(3) by auto
    next
      case False
      then have "r = r1" "h' = h1"
        using Cons.prems(1) tw \<open>b h\<close> by (auto split: wait_ret.splits option.splits)
      then show ?thesis using I1 False by simp
    qed
  qed
qed

lemma hdr_inv_lists_pid [simp]: "hdr_inv_lists (h\<lparr>mqh_pid := p\<rparr>) fs as = hdr_inv_lists h fs as"
  by (simp add: hdr_inv_lists_def mq_lists_def)

lemma hdr_inv_lists_nwait [simp]: "hdr_inv_lists (h\<lparr>mqh_nwait := p\<rparr>) fs as = hdr_inv_lists h fs as"
  by (simp add: hdr_inv_lists_def mq_lists_def)

lemma notify_owner_lists [simp]:
  "hdr_inv_lists (fst (notify_owner h)) fs as = hdr_inv_lists h fs as"
  by (simp add: notify_owner_def)

lemma notify_owner_attr [simp]: "mqh_attr (fst (notify_owner h)) = mqh_attr h"
  by (simp add: notify_owner_def)

lemma enqueue_msg_fatal: "mqh_free h = 0 \<Longrightarrow> enqueue_msg ptr prio h tr = Some (Fatal, h, tr)"
  by (simp add: enqueue_msg_def)

lemma dequeue_msg_fatal: "mqh_head h = 0 \<Longrightarrow> dequeue_msg priop h tr = (Fatal, h, tr)"
  by (simp add: dequeue_msg_def)

lemma enqueue_hdr_inv:
  assumes "hdr_inv_lists h fs as" "mq_curmsgs (mqh_attr h) < mq_maxmsg (mqh_attr h)"
    and "enqueue_msg ptr prio h tr = Some (Ok (), h', ev)"
  shows "\<exists>f fs'. fs = f # fs' \<and> hdr_inv_lists h' fs' (place (mptr h) prio f as)
           \<and> mq_curmsgs (mqh_attr h') = mq_curmsgs (mqh_attr h) + 1
           \<and> mq_maxmsg (mqh_attr h') = mq_maxmsg (mqh_attr h)"
proof (cases fs)
  case Nil
  then have "mqh_free h = 0" using assms(1) by (simp add: hdr_inv_lists_def mq_lists_def)
  then show ?thesis using assms(3) by (simp add: enqueue_msg_fatal)
next
  case (Cons f fs')
  then have L: "mq_lists h (f # fs') as" using assms(1) by (simp add: hdr_inv_lists_def)
  from enqueue_msg_lists [OF L, of ptr prio tr] assms(3)
  have "mq_lists h' fs' (place (mptr h) prio f as)"
    and "mqh_attr h' = (mqh_attr h)\<lparr>mq_curmsgs := mq_curmsgs (mqh_attr h) + 1\<rparr>"
    by auto
  then show ?thesis using assms(1,2) Cons
    by (simp add: hdr_inv_lists_def length_place)
qed

lemma dequeue_hdr_inv:
  assumes "hdr_inv_lists h fs as" "0 < mq_curmsgs (mqh_attr h)"
    and "dequeue_msg priop h tr = (Ok r, h', ev)"
  shows "\<exists>a as'. as = a # as' \<and> hdr_inv_lists h' (a # fs) as'
           \<and> mq_curmsgs (mqh_attr h') = mq_curmsgs (mqh_attr h) - 1
           \<and> mq_maxmsg (mqh_attr h') = mq_maxmsg (mqh_attr h)"
proof (cases as)
  case Nil
  then have "mqh_head h = 0" using assms(1) by (simp add: hdr_inv_lists_def mq_lists_def)
  then show ?thesis using assms(3) by (simp add: dequeue_msg_fatal)
next
  case (Cons a as')
  then have L: "mq_lists h fs (a # as')" using assms(1) by (simp add: hdr_inv_lists_def)
  from dequeue_msg_lists [OF L, of priop tr] assms(3)
  have "mq_lists h' (a # fs) as'"
    and "mqh_attr h' = (mqh_attr h)\<lparr>mq_curmsgs := mq_curmsgs (mqh_attr h) - 1\<rparr>"
    by auto
  then show ?thesis using assms(1,2) Cons
    by (simp add: hdr_inv_lists_def)
qed

lemma send_preserves_hdr_inv:
  assumes I: "hdr_inv h" and K: "others_keep hdr_inv E"
    and S: "u_mq_send P E ptr prio abstime h = Some (Ok (), h', ev)"
  shows "hdr_inv h'"
proof -
  from S obtain h0 tr where en: "enqueue_msg ptr prio h0 tr = Some (Ok (), h', ev)"
    and I0: "hdr_inv h0" and room: "mq_curmsgs (mqh_attr h0) = 0 \<or> \<not> queue_full h0"
  proof (cases "mq_curmsgs (mqh_attr h) = 0")
    case True
    have "hdr_inv (fst (notify_owner h))" using I by (simp add: hdr_inv_ex)
    with True S that show ?thesis
      by (auto simp: u_mq_send_def split: if_splits option.splits)
  next
    case nz: False
    show ?thesis
    proof (cases "queue_full h")
      case False
      with nz S that I show ?thesis
        by (auto simp: u_mq_send_def queue_full_def split: if_splits option.splits)
    next
      case True
      with nz S obtain h1 tr1 where
        w: "wait_while queue_full P WAITSEND abstime (waits E) h [ACQUIRE_MUTEX] = Some (RET None, h1, tr1)"
        and e: "enqueue_msg ptr prio h1 tr1 = Some (Ok (), h', ev)"
        by (auto simp: u_mq_send_def queue_full_def
            split: if_splits option.splits wait_ret.splits)
      from wait_while_inv [OF w, of hdr_inv] I K
      have "hdr_inv h1" "\<not> queue_full h1" by (auto simp: others_keep_def)
      with e that show ?thesis by blast
    qed
  qed
  from I0 obtain fs as where L: "hdr_inv_lists h0 fs as" by (auto simp: hdr_inv_ex)
  have lt: "mq_curmsgs (mqh_attr h0) < mq_maxmsg (mqh_attr h0)"
  proof (cases "mq_curmsgs (mqh_attr h0) = 0")
    case False
    then show ?thesis using room by (simp add: queue_full_def)
  next
    case True
    have "fs \<noteq> []"
    proof
      assume "fs = []"
      then have "mqh_free h0 = 0" using L by (simp add: hdr_inv_lists_def mq_lists_def)
      then show False using en by (simp add: enqueue_msg_fatal)
    qed
    then have "0 < int (length fs)" by simp
    moreover have "int (length fs) + int (length as) = mq_maxmsg (mqh_attr h0)"
      using L by (simp add: hdr_inv_lists_def)
    ultimately show ?thesis using True by linarith
  qed
  from enqueue_hdr_inv [OF L lt en] show ?thesis by (auto simp: hdr_inv_ex)
qed

lemma receive_preserves_hdr_inv:
  assumes I: "hdr_inv h" and K: "others_keep hdr_inv E"
    and S: "u_mq_receive P E maxlen priop abstime h = Some (Ok r, h', ev)"
  shows "hdr_inv h'"
proof -
  from S obtain h0 tr where de: "dequeue_msg priop h0 tr = (Ok r, h', ev)"
    and I0: "hdr_inv h0" and room: "\<not> queue_empty h0"
  proof (cases "queue_empty h")
    case False
    with S that I show ?thesis
      by (auto simp: u_mq_receive_def queue_empty_def split: if_splits option.splits)
  next
    case True
    with S obtain h1 tr1 where
      w: "wait_while queue_empty P WAITRECV abstime (waits E) (h\<lparr>mqh_nwait := mqh_nwait h + 1\<rparr>)
            [ACQUIRE_MUTEX] = Some (RET None, h1, tr1)"
      and e: "dequeue_msg priop (h1\<lparr>mqh_nwait := mqh_nwait h1 - 1\<rparr>) tr1 = (Ok r, h', ev)"
      by (auto simp: u_mq_receive_def queue_empty_def
          split: if_splits option.splits wait_ret.splits)
    have "hdr_inv (h\<lparr>mqh_nwait := mqh_nwait h + 1\<rparr>)" using I by (simp add: hdr_inv_ex)
    from wait_while_inv [OF w, of hdr_inv, OF this] K
    have "hdr_inv h1" "\<not> queue_empty h1" by (auto simp: others_keep_def)
    then have "hdr_inv (h1\<lparr>mqh_nwait := mqh_nwait h1 - 1\<rparr>)"
      "\<not> queue_empty (h1\<lparr>mqh_nwait := mqh_nwait h1 - 1\<rparr>)"
      by (simp_all add: hdr_inv_ex queue_empty_def)
    with e that show ?thesis by blast
  qed
  from I0 obtain fs as where L: "hdr_inv_lists h0 fs as" by (auto simp: hdr_inv_ex)
  have "0 < mq_curmsgs (mqh_attr h0)"
    using room L by (simp add: queue_empty_def hdr_inv_lists_def)
  from dequeue_hdr_inv [OF L this de] show ?thesis by (auto simp: hdr_inv_ex)
qed

lemma size_t_id: "0 \<le> x \<Longrightarrow> x \<le> 1048576 \<Longrightarrow> size_t x = x"
  by (simp add: size_t_def)

lemma int32_t_small: "0 \<le> x \<Longrightarrow> x \<le> 1048576 \<Longrightarrow> int32_t x = x"
  by (simp add: int32_t_def)

lemma queue_inv_lists_pid [simp]: "queue_inv_lists (h\<lparr>mqh_pid := p\<rparr>) fs as = queue_inv_lists h fs as"
  by (simp add: queue_inv_lists_def)

lemma queue_inv_lists_nwait [simp]: "queue_inv_lists (h\<lparr>mqh_nwait := p\<rparr>) fs as = queue_inv_lists h fs as"
  by (simp add: queue_inv_lists_def)

lemma notify_owner_mptr [simp]: "mptr (fst (notify_owner h)) = mptr h"
  by (simp add: notify_owner_def)

lemma notify_owner_queue_inv [simp]:
  "queue_inv_lists (fst (notify_owner h)) fs as = queue_inv_lists h fs as"
  by (simp add: notify_owner_def)

lemma message_at_cong:
  "msg_len (mptr h' x) = msg_len (mptr h x) \<Longrightarrow> msg_prio (mptr h' x) = msg_prio (mptr h x)
   \<Longrightarrow> msg_body (mptr h' x) = msg_body (mptr h x) \<Longrightarrow> message_at h' x = message_at h x"
  by (simp add: message_at_def)

lemma enqueue_queue_inv:
  assumes Q: "queue_inv_lists h fs as" and room: "mq_curmsgs (mqh_attr h) < mq_maxmsg (mqh_attr h)"
    and len: "length ptr \<le> 1048576"
  shows "\<exists>f fs' h'. fs = f # fs'
      \<and> enqueue_msg ptr prio h tr =
          Some (Ok (), h', tr @ (if mq_curmsgs (mqh_attr h) = 0 then [SET_EVENT WAITRECV] else [])
                              @ [RELEASE_MUTEX])
      \<and> queue_inv_lists h' fs' (place (mptr h) prio f as)
      \<and> messages h' (place (mptr h) prio f as)
          = takeWhile (\<lambda>m. prio \<le> snd (snd m)) (messages h as)
            @ (int (length ptr), ptr, prio) # dropWhile (\<lambda>m. prio \<le> snd (snd m)) (messages h as)
      \<and> mqh_attr h' = (mqh_attr h)\<lparr>mq_curmsgs := mq_curmsgs (mqh_attr h) + 1\<rparr>
      \<and> mqh_nwait h' = mqh_nwait h \<and> mqh_pid h' = mqh_pid h \<and> mqh_event h' = mqh_event h"
proof -
  have "int (length fs) + int (length as) = mq_maxmsg (mqh_attr h)"
    "int (length as) = mq_curmsgs (mqh_attr h)"
    using Q by (simp_all add: queue_inv_lists_def hdr_inv_lists_def)
  with room have "fs \<noteq> []" by auto
  then obtain f fs' where fs: "fs = f # fs'" by (cases fs) auto
  have L: "mq_lists h (f # fs') as" using Q fs by (simp add: queue_inv_lists_def hdr_inv_lists_def)
  have fas: "f \<notin> set as" using L by (auto simp: mq_lists_def)
  from enqueue_msg_lists [OF L, of ptr prio tr] obtain h' where
    run: "enqueue_msg ptr prio h tr =
          Some (Ok (), h', tr @ (if mq_curmsgs (mqh_attr h) = 0 then [SET_EVENT WAITRECV] else [])
                              @ [RELEASE_MUTEX])"
    and L': "mq_lists h' fs' (place (mptr h) prio f as)"
    and at: "mqh_attr h' = (mqh_attr h)\<lparr>mq_curmsgs := mq_curmsgs (mqh_attr h) + 1\<rparr>"
    and rest: "mqh_nwait h' = mqh_nwait h" "mqh_pid h' = mqh_pid h" "mqh_event h' = mqh_event h"
    and pay: "\<And>x. msg_len (mptr h' x) = msg_len ((if x = f then stamp ptr prio else id) (mptr h x))
                \<and> msg_prio (mptr h' x) = msg_prio ((if x = f then stamp ptr prio else id) (mptr h x))
                \<and> msg_body (mptr h' x) = msg_body ((if x = f then stamp ptr prio else id) (mptr h x))"
    by blast
  have Q': "queue_inv_lists h' fs' (place (mptr h) prio f as)"
    using Q fs L' at room by (simp add: queue_inv_lists_def hdr_inv_lists_def length_place)
  have mf: "message_at h' f = (int (length ptr), ptr, prio)"
    using pay [of f] len by (simp add: message_at_def stamp_def int32_t_small memcpy_def)
  have mo: "message_at h' x = message_at h x" if "x \<in> set as" for x
    using pay [of x] that fas by (intro message_at_cong) auto
  have pr: "snd (snd (message_at h x)) = msg_prio (mptr h x)" for x
    by (simp add: message_at_def)
  have "map (message_at h') (takeWhile (\<lambda>x. prio \<le> msg_prio (mptr h x)) as)
        = map (message_at h) (takeWhile (\<lambda>x. prio \<le> msg_prio (mptr h x)) as)"
    using mo by (intro map_cong) (auto dest: set_takeWhileD)
  moreover have "map (message_at h') (dropWhile (\<lambda>x. prio \<le> msg_prio (mptr h x)) as)
        = map (message_at h) (dropWhile (\<lambda>x. prio \<le> msg_prio (mptr h x)) as)"
    using mo by (intro map_cong) (auto dest: set_dropWhileD)
  ultimately have ms: "messages h' (place (mptr h) prio f as)
          = takeWhile (\<lambda>m. prio \<le> snd (snd m)) (messages h as)
            @ (int (length ptr), ptr, prio) # dropWhile (\<lambda>m. prio \<le> snd (snd m)) (messages h as)"
    by (simp add: messages_def place_takeWhile mf takeWhile_map dropWhile_map comp_def pr)
  show ?thesis using fs run Q' ms at rest by blast
qed


lemma send_refines:
  assumes Q: "queue_inv_lists h fs as" and ok: "call_ok P E mqinfo"
    and prio: "prio < MQ_PRIO_MAX P"
    and sz: "0 \<le> mq_msgsize (mqh_attr h)" "mq_msgsize (mqh_attr h) \<le> 1048576"
    and len: "int (length ptr) \<le> mq_msgsize (mqh_attr h)"
    and room: "mq_curmsgs (mqh_attr h) < mq_maxmsg (mqh_attr h)"
  shows "\<exists>f fs' h' ev. fs = f # fs'
      \<and> u_mq_send P E ptr prio abstime h = Some (Ok (), h', ev)
      \<and> queue_inv_lists h' fs' (place (mptr h) prio f as)
      \<and> messages h' (place (mptr h) prio f as)
          = takeWhile (\<lambda>m. prio \<le> snd (snd m)) (messages h as)
            @ (int (length ptr), ptr, prio) # dropWhile (\<lambda>m. prio \<le> snd (snd m)) (messages h as)
      \<and> mqh_attr h' = (mqh_attr h)\<lparr>mq_curmsgs := mq_curmsgs (mqh_attr h) + 1\<rparr>"
proof -
  have l2: "length ptr \<le> 1048576" using len sz by linarith
  have st: "size_t (mq_msgsize (mqh_attr h)) = mq_msgsize (mqh_attr h)"
    using sz by (rule size_t_id)
  show ?thesis
  proof (cases "mq_curmsgs (mqh_attr h) = 0")
    case True
    let ?h0 = "fst (notify_owner h)"
    have Q0: "queue_inv_lists ?h0 fs as" using Q by simp
    have r0: "mq_curmsgs (mqh_attr ?h0) < mq_maxmsg (mqh_attr ?h0)" using room by simp
    have run: "u_mq_send P E ptr prio abstime h
               = enqueue_msg ptr prio ?h0 (ACQUIRE_MUTEX # snd (notify_owner h))"
      using ok prio len st True by (simp add: u_mq_send_def call_ok_def)
    have ms: "messages ?h0 as = messages h as" by (simp add: messages_def message_at_def)
    from enqueue_queue_inv [OF Q0 r0 l2, of prio "ACQUIRE_MUTEX # snd (notify_owner h)"]
    show ?thesis unfolding run ms by auto
  next
    case False
    have run: "u_mq_send P E ptr prio abstime h = enqueue_msg ptr prio h [ACQUIRE_MUTEX]"
      using ok prio len st False room by (simp add: u_mq_send_def call_ok_def)
    from enqueue_queue_inv [OF Q room l2, of prio "[ACQUIRE_MUTEX]"]
    show ?thesis unfolding run by auto
  qed
qed


section \<open>The sample queue\<close>

declare free_loop.simps [simp del]

lemma sample_queue_eval:
  "mqh_free sample_queue = 128" "mqh_head sample_queue = 0"
  "mqh_attr sample_queue = sample_attr"
  "msg_next (mptr sample_queue 128) = 156"
  "msg_next (mptr sample_queue 156) = 184"
  "msg_next (mptr sample_queue 184) = 0"
  by (simp_all add: sample_queue_def init_hdr_def Let_def sample_platform_def sample_attr_def
      zero_segment_def MSGSIZE_def roundup_def sizeof_msg_hdr_def free_loop.simps int32_t_def)

lemma sample_queue_inv: "queue_inv_lists sample_queue [128, 156, 184] []"
  by (simp add: queue_inv_lists_def hdr_inv_lists_def mq_lists_def sample_queue_eval
      slot_offset_def sample_attr_def)


section \<open>Fatal diagnostics under the invariant\<close>

lemma init_hdr_attr:
  "mqh_attr (init_hdr P a raw) =
     \<lparr>mq_flags = {}, mq_maxmsg = mq_maxmsg a, mq_msgsize = mq_msgsize a, mq_curmsgs = 0\<rparr>"
  by (simp add: init_hdr_def Let_def)

lemma enqueue_not_fatal:
  assumes Q: "queue_inv h" and room: "mq_curmsgs (mqh_attr h) < mq_maxmsg (mqh_attr h)"
  shows "\<exists>h' ev. enqueue_msg ptr prio h tr = Some (Ok (), h', ev)"
proof -
  from Q obtain fs as where L: "queue_inv_lists h fs as" by (auto simp: queue_inv_ex)
  then have "int (length fs) + int (length as) = mq_maxmsg (mqh_attr h)"
    "int (length as) = mq_curmsgs (mqh_attr h)"
    by (simp_all add: queue_inv_lists_def hdr_inv_lists_def)
  with room obtain f fs' where "fs = f # fs'" by (cases fs) auto
  then have "mq_lists h (f # fs') as"
    using L by (simp add: queue_inv_lists_def hdr_inv_lists_def)
  from enqueue_msg_lists [OF this, of ptr prio tr] show ?thesis by blast
qed

lemma dequeue_not_fatal:
  assumes Q: "queue_inv h" and nz: "mq_curmsgs (mqh_attr h) \<noteq> 0"
  shows "\<exists>r h' ev. dequeue_msg priop h tr = (Ok r, h', ev)"
proof -
  from Q obtain fs as where L: "queue_inv_lists h fs as" by (auto simp: queue_inv_ex)
  then have "int (length as) = mq_curmsgs (mqh_attr h)"
    by (simp_all add: queue_inv_lists_def)
  with nz obtain a as' where "as = a # as'" by (cases as) auto
  then have "mq_lists h fs (a # as')"
    using L by (simp add: queue_inv_lists_def hdr_inv_lists_def)
  from dequeue_msg_lists [OF this, of priop tr] show ?thesis by blast
qed

lemma queue_inv_pid [simp]: "queue_inv (h\<lparr>mqh_pid := p\<rparr>) = queue_inv h"
  by (simp add: queue_inv_ex)

lemma queue_inv_nwait [simp]: "queue_inv (h\<lparr>mqh_nwait := p\<rparr>) = queue_inv h"
  by (simp add: queue_inv_ex)

lemma queue_inv_notify [simp]: "queue_inv (fst (notify_owner h)) = queue_inv h"
  by (simp add: queue_inv_ex)

lemma queue_inv_cap: "queue_inv h \<Longrightarrow> 1 \<le> mq_maxmsg (mqh_attr h)"
  by (auto simp: queue_inv_ex queue_inv_lists_def)

lemma send_not_fatal:
  assumes Q: "queue_inv h" and K: "others_keep queue_inv E"
  shows "u_mq_send P E ptr prio abstime h \<noteq> Some (Fatal, h0, tr)"
proof
  assume F: "u_mq_send P E ptr prio abstime h = Some (Fatal, h0, tr)"
  show False
  proof (cases "mq_curmsgs (mqh_attr h) = 0")
    case True
    have "queue_inv (fst (notify_owner h))" using Q by simp
    moreover have "mq_curmsgs (mqh_attr (fst (notify_owner h))) < mq_maxmsg (mqh_attr (fst (notify_owner h)))"
      using True queue_inv_cap [OF Q] by simp
    ultimately obtain h' ev where
      "enqueue_msg ptr prio (fst (notify_owner h)) (ACQUIRE_MUTEX # snd (notify_owner h))
         = Some (Ok (), h', ev)"
      using enqueue_not_fatal by blast
    with True F show False
      by (auto simp: u_mq_send_def split: if_splits option.splits)
  next
    case nz: False
    show False
    proof (cases "queue_full h")
      case False
      then obtain h' ev where "enqueue_msg ptr prio h [ACQUIRE_MUTEX] = Some (Ok (), h', ev)"
        using enqueue_not_fatal [OF Q] by (fastforce simp: queue_full_def)
      with nz False F show False
        by (auto simp: u_mq_send_def queue_full_def split: if_splits option.splits)
    next
      case True
      with nz F obtain h1 tr1 where
        w: "wait_while queue_full P WAITSEND abstime (waits E) h [ACQUIRE_MUTEX] = Some (RET None, h1, tr1)"
        and e: "enqueue_msg ptr prio h1 tr1 = Some (Fatal, h0, tr)"
        by (auto simp: u_mq_send_def queue_full_def
            split: if_splits option.splits wait_ret.splits)
      from wait_while_inv [OF w, of queue_inv] Q K
      have "queue_inv h1" "\<not> queue_full h1" by (auto simp: others_keep_def)
      then obtain h' ev where "enqueue_msg ptr prio h1 tr1 = Some (Ok (), h', ev)"
        using enqueue_not_fatal [of h1] by (fastforce simp: queue_full_def)
      with e show False by simp
    qed
  qed
qed

lemma receive_not_fatal:
  assumes Q: "queue_inv h" and K: "others_keep queue_inv E"
  shows "u_mq_receive P E maxlen priop abstime h \<noteq> Some (Fatal, h0, tr)"
proof
  assume F: "u_mq_receive P E maxlen priop abstime h = Some (Fatal, h0, tr)"
  show False
  proof (cases "mq_curmsgs (mqh_attr h) = 0")
    case False
    then obtain r h' ev where "dequeue_msg priop h [ACQUIRE_MUTEX] = (Ok r, h', ev)"
      using dequeue_not_fatal [OF Q] by blast
    with False F show False
      by (auto simp: u_mq_receive_def split: if_splits option.splits)
  next
    case True
    with F obtain h1 tr1 where
      w: "wait_while queue_empty P WAITRECV abstime (waits E) (h\<lparr>mqh_nwait := mqh_nwait h + 1\<rparr>)
            [ACQUIRE_MUTEX] = Some (RET None, h1, tr1)"
      and e: "dequeue_msg priop (h1\<lparr>mqh_nwait := mqh_nwait h1 - 1\<rparr>) tr1 = (Fatal, h0, tr)"
      by (auto simp: u_mq_receive_def split: if_splits option.splits wait_ret.splits)
    have "queue_inv (h\<lparr>mqh_nwait := mqh_nwait h + 1\<rparr>)" using Q by simp
    from wait_while_inv [OF w, of queue_inv, OF this] K
    have "queue_inv h1" "\<not> queue_empty h1" by (auto simp: others_keep_def)
    then have "queue_inv (h1\<lparr>mqh_nwait := mqh_nwait h1 - 1\<rparr>)"
      "mq_curmsgs (mqh_attr (h1\<lparr>mqh_nwait := mqh_nwait h1 - 1\<rparr>)) \<noteq> 0"
      by (simp_all add: queue_empty_def)
    from dequeue_not_fatal [OF this, of priop tr1] e show False by auto
  qed
qed

lemma sample_call_ok: "call_ok sample_platform sample_env sample_info"
  by (simp add: call_ok_def sample_platform_def sample_env_def sample_info_def)

lemma sample_queue_reg:
  "mqh_pid sample_queue = 0" "mqh_nwait sample_queue = 0"
  "mqh_event sample_queue = \<lparr>sigev_notify = SIGEV_NONE, sigev_signo = 0, sigev_value = 0\<rparr>"
  by (simp_all add: sample_queue_def init_hdr_def Let_def zero_segment_def)

lemma full_queue_eval:
  "mqh_free full_queue = 0" "mqh_head full_queue = 128"
  "mqh_attr full_queue = sample_attr\<lparr>mq_curmsgs := 3\<rparr>"
  "mptr full_queue = mptr sample_queue"
  "mqh_pid full_queue = 0" "mqh_nwait full_queue = 0"
  by (simp_all add: full_queue_def sample_queue_reg)

lemma sample_queue_inv_ex: "queue_inv sample_queue"
  using sample_queue_inv by (auto simp: queue_inv_ex)

section \<open>Notification and the waiting-receiver count\<close>

lemma set_next_same_payload: "same_payload h (set_next l v h)"
  by (cases l) (simp_all add: same_payload_def)

lemma same_payload_trans: "same_payload a b \<Longrightarrow> same_payload b c \<Longrightarrow> same_payload a c"
  by (simp add: same_payload_def)

lemma find_place_same_payload:
  assumes "find_place p f i pm h = Some h'"
  shows "same_payload h h'"
proof (rule find_place.raw_induct [where P = "\<lambda>p f i pm h h'. same_payload h h'", OF _ assms])
  fix fp :: "nat \<Rightarrow> int \<Rightarrow> int \<Rightarrow> link \<Rightarrow> mq_hdr \<Rightarrow> mq_hdr option"
    and prio freeindex index pmsghdr h y
  assume IH: "\<And>freeindex index pmsghdr h b y.
        fp freeindex index pmsghdr h b = Some y \<Longrightarrow> same_payload b y"
    and B: "(if index \<noteq> 0
      then if msg_prio (mptr h index) < prio
           then Some (set_next pmsghdr freeindex (set_next (SLOT freeindex) index h))
           else fp prio freeindex (msg_next (mptr h index)) (SLOT index) h
      else Some (set_next (SLOT freeindex) 0 (set_next pmsghdr freeindex h))) = Some y"
  show "same_payload h y"
  proof (cases "index \<noteq> 0 \<and> \<not> msg_prio (mptr h index) < prio")
    case True
    then show ?thesis using B IH by auto
  next
    case False
    then have "y = set_next pmsghdr freeindex (set_next (SLOT freeindex) index h)
        \<or> y = set_next (SLOT freeindex) 0 (set_next pmsghdr freeindex h)"
      using B by (auto split: if_splits)
    moreover have "same_payload h (set_next l v (set_next l' v' h))" for l v l' v'
      by (rule same_payload_trans [OF set_next_same_payload set_next_same_payload])
    ultimately show ?thesis by (auto simp del: set_next.simps)
  qed
qed

lemma enqueue_msg_registration:
  assumes "enqueue_msg ptr prio h tr = Some (r, h', ev)"
  shows "mqh_pid h' = mqh_pid h \<and> mqh_nwait h' = mqh_nwait h \<and> mqh_event h' = mqh_event h
       \<and> filter is_sigqueue ev = filter is_sigqueue tr
       \<and> (r = Ok () \<longrightarrow> mq_curmsgs (mqh_attr h') = mq_curmsgs (mqh_attr h) + 1)"
proof (cases "mqh_free h = 0")
  case True
  then show ?thesis using assms by (simp add: enqueue_msg_fatal)
next
  case False
  define h2 where "h2 = h\<lparr>mptr := (mptr h)(mqh_free h := stamp ptr prio (mptr h (mqh_free h))),
                          mqh_free := msg_next (mptr h (mqh_free h))\<rparr>"
  from assms False obtain h3 where
    fp: "find_place prio (mqh_free h) (mqh_head h2) HEAD h2 = Some h3"
    and r: "r = Ok ()"
    and h': "h' = h3\<lparr>mqh_attr := (mqh_attr h3)\<lparr>mq_curmsgs := mq_curmsgs (mqh_attr h3) + 1\<rparr>\<rparr>"
    and ev: "ev = tr @ (if mq_curmsgs (mqh_attr h3) = 0 then [SET_EVENT WAITRECV] else []) @ [RELEASE_MUTEX]"
    by (auto simp: enqueue_msg_def Let_def h2_def stamp_def split: option.splits)
  have "same_payload h2 h3" using fp by (rule find_place_same_payload)
  then show ?thesis using r h' ev by (simp add: same_payload_def h2_def)
qed

lemma notify_owner_cases:
  "notify_owner h =
     (if mqh_pid h \<noteq> 0 \<and> mqh_nwait h = 0
      then (h\<lparr>mqh_pid := 0\<rparr>,
            if sigev_notify (mqh_event h) = SIGEV_SIGNAL
            then [SIGQUEUE (mqh_pid h) (sigev_signo (mqh_event h)) (sigev_value (mqh_event h))]
            else [])
      else (h, []))"
  by (simp add: notify_owner_def)

lemma armed_queue_inv: "queue_inv_lists armed_queue [128, 156, 184] []"
  using sample_queue_inv by (simp add: armed_queue_def queue_inv_lists_def hdr_inv_lists_def mq_lists_def)

lemma armed_queue_eval:
  "mqh_attr armed_queue = sample_attr" "mqh_pid armed_queue = 42" "mqh_nwait armed_queue = 0"
  "mqh_event armed_queue = \<lparr>sigev_notify = SIGEV_SIGNAL, sigev_signo = 10, sigev_value = 7\<rparr>"
  by (simp_all add: armed_queue_def sample_queue_eval sample_queue_reg)

lemma dequeue_msg_nwait:
  "dequeue_msg priop h tr = (r, h', ev) \<Longrightarrow> mqh_nwait h' = mqh_nwait h"
  by (auto simp: dequeue_msg_def Let_def split: if_splits)

lemma receive_nwait_exits:
  assumes ok: "call_ok P E mqinfo" and blocking: "O_NONBLOCK \<notin> mqi_flags mqinfo"
    and len: "size_t (mq_msgsize (mqh_attr h)) \<le> int maxlen"
    and empty: "mq_curmsgs (mqh_attr h) = 0"
    and K: "others_keep (\<lambda>s. mqh_nwait s = mqh_nwait h + 1) E"
    and R: "u_mq_receive P E maxlen priop abstime h = Some (r, h', ev)"
  shows "(\<forall>x. r = Ok x \<longrightarrow> mqh_nwait h' = mqh_nwait h)
       \<and> (\<forall>e. r = Err e \<longrightarrow> mqh_nwait h' = mqh_nwait h + 1)"
proof -
  from R ok blocking len empty obtain r1 h1 tr1 where
    w: "wait_while queue_empty P WAITRECV abstime (waits E) (h\<lparr>mqh_nwait := mqh_nwait h + 1\<rparr>)
          [ACQUIRE_MUTEX] = Some (r1, h1, tr1)"
    and c: "(case r1 of
               THREAD_EXIT \<Rightarrow> Some (Cancelled, h1, tr1)
             | RET (Some e) \<Rightarrow> Some (Err e, h1, tr1 @ [RELEASE_MUTEX])
             | RET None \<Rightarrow> Some (dequeue_msg priop (h1\<lparr>mqh_nwait := mqh_nwait h1 - 1\<rparr>) tr1))
            = Some (r, h', ev)"
    by (auto simp: u_mq_receive_def call_ok_def split: option.splits)
  have n1: "mqh_nwait h1 = mqh_nwait h + 1"
    using wait_while_inv [OF w, of "\<lambda>s. mqh_nwait s = mqh_nwait h + 1"] K
    by (auto simp: others_keep_def)
  show ?thesis
  proof (cases r1)
    case THREAD_EXIT
    then show ?thesis using c by auto
  next
    case (RET x)
    show ?thesis
    proof (cases x)
      case None
      then have "dequeue_msg priop (h1\<lparr>mqh_nwait := mqh_nwait h1 - 1\<rparr>) tr1 = (r, h', ev)"
        using c RET by simp
      from dequeue_msg_nwait [OF this] have "mqh_nwait h' = mqh_nwait h" using n1 by simp
      moreover have "\<And>e. r \<noteq> Err e"
        using \<open>dequeue_msg priop (h1\<lparr>mqh_nwait := mqh_nwait h1 - 1\<rparr>) tr1 = (r, h', ev)\<close>
        by (auto simp: dequeue_msg_def Let_def split: if_splits)
      ultimately show ?thesis by simp
    next
      case (Some e)
      then show ?thesis using c RET n1 by auto
    qed
  qed
qed

section \<open>Initialisation of the free list\<close>

declare free_loop.simps [simp del]

lemma free_loop_step:
  "i < n - 1 \<Longrightarrow> free_loop i n step index m
     = free_loop (i + 1) n step (index + step) (m(index := (m index)\<lparr>msg_next := int32_t (index + step)\<rparr>))"
  by (subst free_loop.simps) simp

lemma free_loop_stop: "\<not> i < n - 1 \<Longrightarrow> free_loop i n step index m = (index, m)"
  by (subst free_loop.simps) simp

lemma free_loop_fst:
  "fst (free_loop i n step index m) = (if i < n - 1 then index + (n - 1 - i) * step else index)"
proof (induction i n step index m rule: free_loop.induct)
  case (1 i maxmsg step index m)
  show ?case
  proof (cases "i < maxmsg - 1")
    case True
    have "fst (free_loop i maxmsg step index m)
        = (if i + 1 < maxmsg - 1 then index + step + (maxmsg - 1 - (i + 1)) * step else index + step)"
      unfolding free_loop_step [OF True] by (rule "1.IH" [OF True])
    also have "\<dots> = index + (maxmsg - 1 - i) * step"
    proof (cases "i + 1 < maxmsg - 1")
      case True
      then show ?thesis by (simp add: algebra_simps)
    next
      case False
      with \<open>i < maxmsg - 1\<close> have "maxmsg = i + 2" by simp
      then show ?thesis by simp
    qed
    finally show ?thesis using True by simp
  next
    case False
    then show ?thesis by (simp add: free_loop_stop)
  qed
qed

lemma free_loop_below:
  "0 < step \<Longrightarrow> x < index \<Longrightarrow> snd (free_loop i n step index m) x = m x"
proof (induction i n step index m rule: free_loop.induct)
  case (1 i maxmsg step index m)
  show ?case
  proof (cases "i < maxmsg - 1")
    case True
    have "x < index + step" using "1.prems" by simp
    from "1.IH" [OF True "1.prems"(1) this]
    have "snd (free_loop i maxmsg step index m) x
        = (m(index := (m index)\<lparr>msg_next := int32_t (index + step)\<rparr>)) x"
      unfolding free_loop_step [OF True] .
    then show ?thesis using "1.prems"(2) by simp
  next
    case False
    then show ?thesis by (simp add: free_loop_stop)
  qed
qed


lemma free_loop_link:
  "0 < step \<Longrightarrow> k < nat (n - 1 - i) \<Longrightarrow>
     msg_next (snd (free_loop i n step index m) (index + int k * step))
       = int32_t (index + int (Suc k) * step)"
proof (induction i n step index m arbitrary: k rule: free_loop.induct)
  case (1 i maxmsg step index m)
  from "1.prems" have lt: "i < maxmsg - 1" by simp
  let ?m1 = "m(index := (m index)\<lparr>msg_next := int32_t (index + step)\<rparr>)"
  show ?case
  proof (cases k)
    case 0
    have "snd (free_loop (i + 1) maxmsg step (index + step) ?m1) index = ?m1 index"
      using "1.prems"(1) by (intro free_loop_below) auto
    then have "msg_next (snd (free_loop i maxmsg step index m) index) = int32_t (index + step)"
      unfolding free_loop_step [OF lt] by simp
    then show ?thesis using 0 by simp
  next
    case (Suc j)
    have "j < nat (maxmsg - 1 - (i + 1))" using "1.prems"(2) Suc by simp
    from "1.IH" [OF lt "1.prems"(1) this]
    have *: "msg_next (snd (free_loop i maxmsg step index m) (index + step + int j * step))
        = int32_t (index + step + int (Suc j) * step)"
      unfolding free_loop_step [OF lt] .
    have e: "index + step + int j * step = index + int k * step"
      "index + step + int (Suc j) * step = index + int (Suc k) * step"
      using Suc by (simp_all add: algebra_simps)
    show ?thesis using * unfolding e .
  qed
qed

lemma chain_arith:
  assumes nx: "\<And>j. j < n \<Longrightarrow> msg_next (m (f j)) = (if Suc j = n then 0 else f (Suc j))"
    and nz: "\<And>j. j < n \<Longrightarrow> f j \<noteq> 0"
  shows "k \<le> n \<Longrightarrow> chain m (if k = n then 0 else f k) (map f [k..<n])"
proof (induction "n - k" arbitrary: k)
  case 0
  then show ?case by simp
next
  case (Suc d)
  then have kn: "k < n" and d: "d = n - Suc k" and le: "Suc k \<le> n" by auto
  have "chain m (if Suc k = n then 0 else f (Suc k)) (map f [Suc k..<n])"
    using Suc.hyps(1) [OF d le] .
  then have "chain m (msg_next (m (f k))) (map f [Suc k..<n])"
    using nx [OF kn] by simp
  then show ?case using kn nz [OF kn] by (simp add: upt_conv_Cons)
qed

lemma MSGSIZE_nonneg: "0 < sizeof_long P \<Longrightarrow> 0 \<le> x \<Longrightarrow> 0 \<le> MSGSIZE P x"
  by (simp add: MSGSIZE_def roundup_def pos_imp_zdiv_nonneg_iff)

lemma init_hdr_fields:
  "mqh_free (init_hdr P a raw) = sizeof_mq_hdr P" "mqh_head (init_hdr P a raw) = 0"
  "mqh_nwait (init_hdr P a raw) = 0" "mqh_pid (init_hdr P a raw) = 0"
  "mqh_magic (init_hdr P a raw) = MQI_MAGIC P"
  by (simp_all add: init_hdr_def Let_def)

lemma init_hdr_links:
  assumes s: "0 < sizeof_msg_hdr + MSGSIZE P (mq_msgsize a)" and n: "1 \<le> mq_maxmsg a"
  shows "k < nat (mq_maxmsg a) \<Longrightarrow>
    msg_next (mptr (init_hdr P a raw) (slot_at P a k))
      = (if Suc k = nat (mq_maxmsg a) then 0 else int32_t (slot_at P a (Suc k)))"
proof -
  assume k: "k < nat (mq_maxmsg a)"
  let ?s = "sizeof_msg_hdr + MSGSIZE P (mq_msgsize a)"
  let ?r = "free_loop 0 (mq_maxmsg a) ?s (sizeof_mq_hdr P) (mptr raw)"
  have f: "fst ?r = sizeof_mq_hdr P + (mq_maxmsg a - 1) * ?s"
    using n by (auto simp: free_loop_fst)
  have m: "mptr (init_hdr P a raw) = (snd ?r)(fst ?r := (snd ?r (fst ?r))\<lparr>msg_next := 0\<rparr>)"
    by (simp add: init_hdr_def Let_def)
  show ?thesis
  proof (cases "Suc k = nat (mq_maxmsg a)")
    case True
    then have "int k = mq_maxmsg a - 1" using n by linarith
    then have "slot_at P a k = fst ?r" by (simp add: f slot_at_def)
    then show ?thesis using True m by simp
  next
    case False
    then have k1: "k < nat (mq_maxmsg a - 1 - 0)" using k by linarith
    then have k2: "int k \<noteq> mq_maxmsg a - 1" by linarith
    have s0: "?s \<noteq> 0" using s by simp
    have ne: "slot_at P a k \<noteq> fst ?r" using k2 s0 by (simp add: f slot_at_def)
    have "msg_next (snd ?r (sizeof_mq_hdr P + int k * ?s)) = int32_t (sizeof_mq_hdr P + int (Suc k) * ?s)"
      using free_loop_link [OF s k1] .
    then show ?thesis using False ne m by (simp add: slot_at_def)
  qed
qed

lemma init_hdr_queue_inv:
  assumes hs: "0 < sizeof_mq_hdr P" and ls: "0 < sizeof_long P"
    and rng: "\<not> attr_out_of_range a"
    and fits: "slot_at P a (nat (mq_maxmsg a - 1)) < 2147483648"
  shows "queue_inv_lists (init_hdr P a raw) (map (slot_at P a) [0..<nat (mq_maxmsg a)]) []"
proof -
  let ?s = "sizeof_msg_hdr + MSGSIZE P (mq_msgsize a)"
  let ?n = "nat (mq_maxmsg a)"
  let ?h = "init_hdr P a raw"
  from rng have n1: "1 \<le> mq_maxmsg a" and ms: "0 \<le> mq_msgsize a"
    by (simp_all add: attr_out_of_range_def)
  have s: "0 < ?s" using MSGSIZE_nonneg [OF ls ms] by (simp add: sizeof_msg_hdr_def)
  have mono: "slot_at P a j \<le> slot_at P a (nat (mq_maxmsg a - 1))" if "j < ?n" for j
  proof -
    have "int j \<le> int (nat (mq_maxmsg a - 1))" using that by linarith
    then have "int j * ?s \<le> int (nat (mq_maxmsg a - 1)) * ?s"
      using s by (intro mult_right_mono) auto
    then show ?thesis by (simp add: slot_at_def)
  qed
  have pos: "0 < slot_at P a j" for j
  proof -
    have "0 \<le> int j * ?s" using s by simp
    then show ?thesis using hs by (simp add: slot_at_def)
  qed
  have so: "slot_offset (slot_at P a j)" if "j < ?n" for j
    using pos [of j] mono [OF that] fits by (simp add: slot_offset_def)
  have nx: "msg_next (mptr ?h (slot_at P a j)) = (if Suc j = ?n then 0 else slot_at P a (Suc j))"
    if "j < ?n" for j
  proof (cases "Suc j = ?n")
    case True
    then show ?thesis using init_hdr_links [OF s n1 that] by simp
  next
    case False
    then have "Suc j < ?n" using that by simp
    then show ?thesis using init_hdr_links [OF s n1 that] False so [of "Suc j"]
      by (simp add: int32_t_slot)
  qed
  have nz: "slot_at P a j \<noteq> 0" if "j < ?n" for j using pos [of j] by simp
  have "chain (mptr ?h) (if 0 = ?n then 0 else slot_at P a 0) (map (slot_at P a) [0..<?n])"
    by (rule chain_arith [OF nx nz]) auto
  moreover have "0 \<noteq> ?n" using n1 by simp
  moreover have "slot_at P a 0 = sizeof_mq_hdr P" by (simp add: slot_at_def)
  ultimately have c: "chain (mptr ?h) (mqh_free ?h) (map (slot_at P a) [0..<?n])"
    by (simp add: init_hdr_fields)
  have inj: "inj_on (slot_at P a) (set [0..<?n])"
    using s by (auto simp: inj_on_def slot_at_def)
  have d: "distinct (map (slot_at P a) [0..<?n])"
    using inj by (simp add: distinct_map)
  have l: "list_all slot_offset (map (slot_at P a) [0..<?n])"
    using so by (simp add: list_all_iff)
  show ?thesis
    using c d l n1
    by (simp add: queue_inv_lists_def hdr_inv_lists_def mq_lists_def init_hdr_fields init_hdr_attr)
qed

lemma chain_funpow:
  assumes nx: "\<And>x. nx x = msg_next (m x)"
  shows "chain m i xs \<Longrightarrow> (\<And>j. j \<le> k \<Longrightarrow> (nx ^^ j) i \<noteq> 0) \<Longrightarrow> (nx ^^ k) i \<in> set xs"
proof (induction k arbitrary: i xs)
  case 0
  from "0.prems"(2) [of 0] have "i \<noteq> 0" by simp
  then show ?case using "0.prems"(1) by (cases xs) auto
next
  case (Suc k)
  from Suc.prems(2) [of 0] have "i \<noteq> 0" by simp
  then obtain ys where xs: "xs = i # ys" and c: "chain m (nx i) ys"
    using Suc.prems(1) by (cases xs) (auto simp: nx)
  have "(nx ^^ j) (nx i) \<noteq> 0" if "j \<le> k" for j
    using Suc.prems(2) [of "Suc j"] that by (simp only: funpow_Suc_right o_apply) simp
  from Suc.IH [OF c this]
  have "(nx ^^ k) (nx i) \<in> set ys" by simp
  then show ?case by (simp only: funpow_Suc_right o_apply xs) simp
qed

lemma big_attr_slot:
  assumes "sizeof_long P = 8"
  shows "slot_at P big_attr k = sizeof_mq_hdr P + int k * 1048588"
  using assms by (simp add: slot_at_def big_attr_def MSGSIZE_def roundup_def sizeof_msg_hdr_def)

lemma big_attr_links:
  assumes l8: "sizeof_long P = 8" and k: "k < 2049"
  shows "msg_next (mptr (init_hdr P big_attr raw) (sizeof_mq_hdr P + int k * 1048588))
      = (if k = 2048 then 0 else int32_t (sizeof_mq_hdr P + int (Suc k) * 1048588))"
proof -
  have s: "0 < sizeof_msg_hdr + MSGSIZE P (mq_msgsize big_attr)"
    using l8 by (simp add: big_attr_def MSGSIZE_def roundup_def sizeof_msg_hdr_def)
  have n: "1 \<le> mq_maxmsg big_attr" by (simp add: big_attr_def)
  have k': "k < nat (mq_maxmsg big_attr)" using k by (simp add: big_attr_def)
  from init_hdr_links [OF s n k', of raw] show ?thesis
    by (simp add: big_attr_slot [OF l8]) (simp add: big_attr_def)
qed

lemma big_attr_walk:
  assumes hs: "0 < sizeof_mq_hdr P" "sizeof_mq_hdr P \<le> 4096" and l8: "sizeof_long P = 8"
    and nx: "\<And>x. nx x = msg_next (mptr (init_hdr P big_attr raw) x)"
  shows "j \<le> 2047 \<Longrightarrow> (nx ^^ j) (sizeof_mq_hdr P) = sizeof_mq_hdr P + int j * 1048588"
proof (induction j)
  case 0
  then show ?case by simp
next
  case (Suc j)
  then have IH: "(nx ^^ j) (sizeof_mq_hdr P) = sizeof_mq_hdr P + int j * 1048588"
    and j: "j < 2047" by simp_all
  have "nx (sizeof_mq_hdr P + int j * 1048588) = int32_t (sizeof_mq_hdr P + int (Suc j) * 1048588)"
    using big_attr_links [OF l8, of j raw] j by (simp add: nx)
  also have "\<dots> = sizeof_mq_hdr P + int (Suc j) * 1048588"
    using hs j by (intro int32_t_slot) (simp add: slot_offset_def)
  finally show ?case using IH by simp
qed


section \<open>The live count over a sequence of calls\<close>

lemma wait_while_nil:
  "wait_while b P evt abstime [] h tr = Some (r, h', tr') \<Longrightarrow> \<not> b h \<and> h' = h"
  by (auto split: if_splits)

lemma send_count:
  assumes S: "u_mq_send P E ptr prio abstime h = Some (Ok (), h', ev)" and W: "waits E = []"
  shows "mq_curmsgs (mqh_attr h') = mq_curmsgs (mqh_attr h) + 1"
proof -
  from S W obtain h0 tr where en: "enqueue_msg ptr prio h0 tr = Some (Ok (), h', ev)"
    and a: "mqh_attr h0 = mqh_attr h"
    by (auto simp: u_mq_send_def split: if_splits option.splits wait_ret.splits
        dest!: wait_while_nil)
  from enqueue_msg_registration [OF en] a show ?thesis by simp
qed

lemma dequeue_msg_count:
  "dequeue_msg priop h tr = (Ok r, h', ev)
     \<Longrightarrow> mq_curmsgs (mqh_attr h') = mq_curmsgs (mqh_attr h) - 1"
  by (auto simp: dequeue_msg_def Let_def split: if_splits)

lemma receive_count:
  assumes S: "u_mq_receive P E maxlen priop abstime h = Some (Ok r, h', ev)" and W: "waits E = []"
  shows "mq_curmsgs (mqh_attr h') = mq_curmsgs (mqh_attr h) - 1"
proof -
  from S W have "dequeue_msg priop h [ACQUIRE_MUTEX] = (Ok r, h', ev)"
    by (auto simp: u_mq_receive_def queue_empty_def
        split: if_splits option.splits wait_ret.splits dest!: wait_while_nil)
  then show ?thesis by (rule dequeue_msg_count)
qed

lemma run_ops_count:
  assumes W: "waits E = []"
  shows "hdr_inv h \<Longrightarrow> run_ops P E ops h = Some h' \<Longrightarrow>
    hdr_inv h'
    \<and> mq_curmsgs (mqh_attr h')
        = mq_curmsgs (mqh_attr h) + int (length (filter is_send ops))
          - int (length (filter (\<lambda>x. \<not> is_send x) ops))"
proof (induction ops arbitrary: h)
  case Nil
  then show ?case by simp
next
  case (Cons x ops)
  have K: "others_keep hdr_inv E" using W by (simp add: others_keep_def)
  show ?case
  proof (cases x)
    case (SEND ptr prio)
    with Cons.prems(2) obtain h1 ev where
      s: "u_mq_send P E ptr prio None h = Some (Ok (), h1, ev)" and r: "run_ops P E ops h1 = Some h'"
      by (auto simp: mq_send_def split: option.splits ret.splits)
    have "hdr_inv h1" using send_preserves_hdr_inv [OF Cons.prems(1) K s] .
    from Cons.IH [OF this r] send_count [OF s W] SEND show ?thesis by simp
  next
    case (RECEIVE maxlen)
    with Cons.prems(2) obtain h1 ev r1 where
      s: "u_mq_receive P E maxlen True None h = Some (Ok r1, h1, ev)" and r: "run_ops P E ops h1 = Some h'"
      by (auto simp: mq_receive_def split: option.splits ret.splits)
    have "hdr_inv h1" using receive_preserves_hdr_inv [OF Cons.prems(1) K s] .
    from Cons.IH [OF this r] receive_count [OF s W] RECEIVE show ?thesis by simp
  qed
qed

section \<open>Send and receive after waiting\<close>



















section \<open>Claims\<close>

subsection \<open>C1\<close>



subsection \<open>C2\<close>

text \<open>
  C2.  The claim holds for send, receive and the live count (lemmas
  \<open>send_preserves_hdr_inv\<close>, \<open>receive_preserves_hdr_inv\<close>,
  \<open>run_ops_count\<close>), and for initialisation while every slot offset fits
  the 32-bit link field (lemma \<open>init_hdr_queue_inv\<close>).  It fails after the
  initialisation of a queue of 2049 messages of 1048576 bytes, which
  \<open>mq_open\<close> creates when asked to: the offset of slot 2048 does not fit
  \<open>msg_next\<close> of slot 2047, the stored link is negative, and the header
  invariant does not hold.
\<close>

theorem init_link_overflow:
  assumes hs: "0 < sizeof_mq_hdr P" "sizeof_mq_hdr P \<le> 4096" and l8: "sizeof_long P = 8"
  shows "(creat_open t = None \<and> ftruncate64 t = None \<and> fdnew t = None \<and> build_fh t = None
            \<and> mqinfo_create t = Inr (mqinfo, raw) \<and> fchmod t = None \<longrightarrow>
          mq_open P {O_CREAT} (Some big_attr) (t # ts)
            = Some (Ok (mqinfo, init_hdr P big_attr raw), [CLOSE_FD]))
    \<and> msg_next (mptr (init_hdr P big_attr raw) (sizeof_mq_hdr P + 2047 * 1048588))
        = sizeof_mq_hdr P - 2147459072
    \<and> \<not> hdr_inv (init_hdr P big_attr raw)"
proof (intro conjI)
  show "creat_open t = None \<and> ftruncate64 t = None \<and> fdnew t = None \<and> build_fh t = None
            \<and> mqinfo_create t = Inr (mqinfo, raw) \<and> fchmod t = None \<longrightarrow>
          mq_open P {O_CREAT} (Some big_attr) (t # ts)
            = Some (Ok (mqinfo, init_hdr P big_attr raw), [CLOSE_FD])"
    by (simp add: create_queue_def big_attr_def)
next
  let ?h = "init_hdr P big_attr raw"
  define nx where "nx = (\<lambda>x. msg_next (mptr ?h x))"
  have nx: "\<And>x. nx x = msg_next (mptr ?h x)" by (simp add: nx_def)
  have last: "msg_next (mptr ?h (sizeof_mq_hdr P + 2047 * 1048588)) = sizeof_mq_hdr P - 2147459072"
  proof -
    have "sizeof_mq_hdr P + 2147508224 + 2147483648 = (sizeof_mq_hdr P + 24576) + 4294967296"
      by simp
    then have "(sizeof_mq_hdr P + 2147508224 + 2147483648) mod 4294967296
        = (sizeof_mq_hdr P + 24576) mod 4294967296"
      by (simp only: mod_add_self2)
    also have "\<dots> = sizeof_mq_hdr P + 24576"
      using hs by (intro mod_pos_pos_trivial) auto
    finally have "int32_t (sizeof_mq_hdr P + 2147508224) = sizeof_mq_hdr P - 2147459072"
      by (simp add: int32_t_def)
    then show ?thesis using big_attr_links [OF l8, of 2047 raw] by simp
  qed
  show "msg_next (mptr ?h (sizeof_mq_hdr P + 2047 * 1048588)) = sizeof_mq_hdr P - 2147459072"
    by (rule last)
  show "\<not> hdr_inv ?h"
  proof
    assume "hdr_inv ?h"
    then obtain fs as where c: "chain (mptr ?h) (mqh_free ?h) fs" and so: "list_all slot_offset fs"
      by (auto simp: hdr_inv_ex hdr_inv_lists_def mq_lists_def)
    have w: "(nx ^^ j) (sizeof_mq_hdr P) = sizeof_mq_hdr P + int j * 1048588" if "j \<le> 2047" for j
      using big_attr_walk [OF hs l8 nx that] .
    have e: "(nx ^^ 2048) (sizeof_mq_hdr P) = sizeof_mq_hdr P - 2147459072"
    proof -
      have "(2048::nat) = Suc 2047" by simp
      then have "(nx ^^ 2048) (sizeof_mq_hdr P) = nx ((nx ^^ 2047) (sizeof_mq_hdr P))"
        by (simp only: funpow.simps o_apply)
      also have "\<dots> = nx (sizeof_mq_hdr P + 2047 * 1048588)" using w [of 2047] by simp
      finally show ?thesis using last by (simp add: nx)
    qed
    have nz: "(nx ^^ j) (sizeof_mq_hdr P) \<noteq> 0" if "j \<le> 2048" for j
    proof (cases "j = 2048")
      case True
      then show ?thesis using e hs by simp
    next
      case False
      then have "j \<le> 2047" using that by simp
      then show ?thesis using w [of j] hs by simp
    qed
    have "mqh_free ?h = sizeof_mq_hdr P" by (simp add: init_hdr_fields)
    with c have "chain (mptr ?h) (sizeof_mq_hdr P) fs" by simp
    from chain_funpow [of nx "mptr ?h" _ _ 2048, OF nx this nz]
    have "(nx ^^ 2048) (sizeof_mq_hdr P) \<in> set fs" by blast
    then have "sizeof_mq_hdr P - 2147459072 \<in> set fs" unfolding e .
    then have "slot_offset (sizeof_mq_hdr P - 2147459072)"
      using so by (simp add: list_all_iff)
    then show False using hs by (simp add: slot_offset_def)
  qed
qed

theorem init_link_overflow_witness:
  "mq_open sample_platform {O_CREAT} (Some big_attr) [sample_try]
     = Some (Ok (sample_info, init_hdr sample_platform big_attr zero_segment), [CLOSE_FD])
   \<and> msg_next (mptr (init_hdr sample_platform big_attr zero_segment) (128 + 2047 * 1048588))
     = - 2147458944
   \<and> \<not> hdr_inv (init_hdr sample_platform big_attr zero_segment)"
proof -
  have h: "0 < sizeof_mq_hdr sample_platform" "sizeof_mq_hdr sample_platform \<le> 4096"
    "sizeof_long sample_platform = 8"
    by (simp_all add: sample_platform_def)
  have b: "sizeof_mq_hdr sample_platform = 128" by (simp add: sample_platform_def)
  have t: "creat_open sample_try = None \<and> ftruncate64 sample_try = None
      \<and> fdnew sample_try = None \<and> build_fh sample_try = None
      \<and> mqinfo_create sample_try = Inr (sample_info, zero_segment) \<and> fchmod sample_try = None"
    by (simp add: sample_try_def)
  show ?thesis
    using t init_link_overflow [OF h, of sample_try sample_info zero_segment "[]"]
    by (simp add: b)
qed

subsection \<open>C3\<close>

text \<open>
  C3.  The claim holds on the successful exit only.  On the empty sample queue
  a blocking timed receive whose wait ends with the deadline, or whose deadline
  is malformed, returns the error with \<open>mqh_nwait\<close> still incremented: it was
  0 and is left at 1.
\<close>

theorem receive_timeout_leaves_nwait:
  "mqh_nwait sample_queue = 0
   \<and> u_mq_receive sample_platform (sample_env\<lparr>waits := [timeout_wait]\<rparr>) 16 True
        (Some \<lparr>tv_sec = 1, tv_nsec = 0\<rparr>) sample_queue
     = Some (Err ETIMEDOUT, sample_queue\<lparr>mqh_nwait := 1\<rparr>,
             [ACQUIRE_MUTEX, CREATE_TIMER, SET_TIMER, RESET_EVENT WAITRECV, RELEASE_MUTEX,
              CLOSE_TIMER, RELEASE_MUTEX])
   \<and> u_mq_receive sample_platform (sample_env\<lparr>waits := [timeout_wait]\<rparr>) 16 True
        (Some \<lparr>tv_sec = 1, tv_nsec = - 1\<rparr>) sample_queue
     = Some (Err EINVAL, sample_queue\<lparr>mqh_nwait := 1\<rparr>, [ACQUIRE_MUTEX, RELEASE_MUTEX])"
  by (simp add: u_mq_receive_def sample_env_def sample_info_def sample_platform_def
      sample_queue_eval sample_queue_reg sample_attr_def size_t_def queue_empty_def
      ipc_cond_timedwait_def cond_wait_def timeout_wait_def timer_cleanup_def Let_def)

subsection \<open>C4\<close>

text \<open>
  C4 (as amended).  Closing a named semaphore writes the live record back
  under the advisory lock and then closes the in-memory semaphore; when the
  lock, the seek or the write fails, \<open>-1\<close> is returned, the lock and the file
  descriptor are released, but \<open>semaphore::close\<close> is not called.
\<close>

theorem sem_close_flush:
  assumes G: "getinternal E = Some (fd, sf)"
  shows "(flock_lock E = 0 \<and> lseek64 E \<noteq> - 1 \<and> write_ret E = sizeof_sem_finfo P \<longrightarrow>
            sem_close P E = (semaphore_close E,
               [FLOCK fd, LSEEK fd, WRITE fd sf, SEMAPHORE_CLOSE, FUNLOCK fd, CLOSE fd]))
       \<and> (\<not> (flock_lock E = 0 \<and> lseek64 E \<noteq> - 1 \<and> write_ret E = sizeof_sem_finfo P) \<longrightarrow>
            fst (sem_close P E) = - 1
            \<and> SEMAPHORE_CLOSE \<notin> set (snd (sem_close P E))
            \<and> (\<exists>tr. snd (sem_close P E) = FLOCK fd # tr @ [FUNLOCK fd, CLOSE fd]))"
  using G by (auto simp: sem_close_def u_sem_close_def)

theorem sem_close_flush_witness:
  "sem_close sample_platform sample_sem
     = (0, [FLOCK 3, LSEEK 3, WRITE 3 \<lparr>sf_value = 7, sf_hash = 99, sf_luid = 1\<rparr>,
            SEMAPHORE_CLOSE, FUNLOCK 3, CLOSE 3])"
proof -
  have g: "getinternal sample_sem = Some (3, \<lparr>sf_value = 7, sf_hash = 99, sf_luid = 1\<rparr>)"
    by (simp add: sample_sem_def)
  have s: "flock_lock sample_sem = 0 \<and> lseek64 sample_sem \<noteq> - 1
      \<and> write_ret sample_sem = sizeof_sem_finfo sample_platform"
    "semaphore_close sample_sem = 0"
    by (simp_all add: sample_sem_def sample_platform_def)
  show ?thesis using s sem_close_flush [OF g, of sample_platform] by simp
qed

text \<open>
  C4 as stated fails: when the advisory lock cannot be taken, the close reports
  \<open>-1\<close> and the in-memory semaphore is left open.
\<close>

theorem sem_close_leaves_object_counterexample:
  "sem_close sample_platform (sample_sem\<lparr>flock_lock := - 1\<rparr>)
     = (- 1, [FLOCK 3, FUNLOCK 3, CLOSE 3])
   \<and> SEMAPHORE_CLOSE \<notin> set (snd (sem_close sample_platform (sample_sem\<lparr>flock_lock := - 1\<rparr>)))"
  by (simp add: sem_close_def u_sem_close_def sample_sem_def)

subsection \<open>C5\<close>

text \<open>
  C5 (as amended).  A successful send that finds the live count at 0 takes it
  to 1.  If a notification is registered and no receiver is blocked
  (\<open>mqh_nwait = 0\<close>), the registration is cleared and exactly one signal is
  queued to the registered process when the registration asks for
  \<open>SIGEV_SIGNAL\<close>, none for another kind of notification.  If a receiver is
  blocked, the registration stays and nothing is queued.  With no registration
  nothing is queued, until \<open>mq_notify\<close> registers again, which it can once the
  registration is cleared.
\<close>

theorem notification_single_shot:
  assumes ok: "call_ok P E mqinfo" and prio: "prio < MQ_PRIO_MAX P"
    and len: "int (length ptr) \<le> size_t (mq_msgsize (mqh_attr h))"
    and empty: "mq_curmsgs (mqh_attr h) = 0"
    and S: "u_mq_send P E ptr prio abstime h = Some (Ok (), h', ev)"
  shows "mq_curmsgs (mqh_attr h') = 1
    \<and> (mqh_pid h \<noteq> 0 \<and> mqh_nwait h = 0 \<longrightarrow>
         mqh_pid h' = 0
         \<and> filter is_sigqueue ev =
             (if sigev_notify (mqh_event h) = SIGEV_SIGNAL
              then [SIGQUEUE (mqh_pid h) (sigev_signo (mqh_event h)) (sigev_value (mqh_event h))]
              else []))
    \<and> (mqh_pid h \<noteq> 0 \<and> mqh_nwait h \<noteq> 0 \<longrightarrow>
         mqh_pid h' = mqh_pid h \<and> filter is_sigqueue ev = [])
    \<and> (mqh_pid h = 0 \<longrightarrow> mqh_pid h' = 0 \<and> filter is_sigqueue ev = [])
    \<and> (mqh_pid h' = 0 \<longrightarrow>
         mq_notify P E (Some sev) pid gone h' = (Ok (), h'\<lparr>mqh_pid := pid, mqh_event := sev\<rparr>))"
proof -
  have run: "enqueue_msg ptr prio (fst (notify_owner h)) (ACQUIRE_MUTEX # snd (notify_owner h))
             = Some (Ok (), h', ev)"
    using S ok prio len empty by (simp add: u_mq_send_def call_ok_def)
  from enqueue_msg_registration [OF run]
  have r: "mqh_pid h' = mqh_pid (fst (notify_owner h))"
    "filter is_sigqueue ev = filter is_sigqueue (snd (notify_owner h))"
    "mq_curmsgs (mqh_attr h') = 1"
    using empty by simp_all
  have n: "mqh_pid h' = 0 \<longrightarrow>
         mq_notify P E (Some sev) pid gone h' = (Ok (), h'\<lparr>mqh_pid := pid, mqh_event := sev\<rparr>)"
    using ok by (simp add: mq_notify_def call_ok_def)
  show ?thesis using r n by (simp add: notify_owner_cases)
qed

theorem notification_single_shot_witness:
  "\<exists>h' ev. u_mq_send sample_platform sample_env ''A'' 1 None armed_queue = Some (Ok (), h', ev)
     \<and> mq_curmsgs (mqh_attr h') = 1 \<and> mqh_pid h' = 0
     \<and> filter is_sigqueue ev = [SIGQUEUE 42 10 7]"
proof -
  have p: "(1::nat) < MQ_PRIO_MAX sample_platform" by (simp add: sample_platform_def)
  have sz: "0 \<le> mq_msgsize (mqh_attr armed_queue)" "mq_msgsize (mqh_attr armed_queue) \<le> 1048576"
    "int (length ''A'') \<le> mq_msgsize (mqh_attr armed_queue)"
    "mq_curmsgs (mqh_attr armed_queue) < mq_maxmsg (mqh_attr armed_queue)"
    by (simp_all add: armed_queue_eval sample_attr_def)
  from send_refines [OF armed_queue_inv sample_call_ok p sz, of None]
  obtain h' ev where s: "u_mq_send sample_platform sample_env ''A'' 1 None armed_queue = Some (Ok (), h', ev)"
    by blast
  have l: "int (length ''A'') \<le> size_t (mq_msgsize (mqh_attr armed_queue))"
    by (simp add: armed_queue_eval sample_attr_def size_t_def)
  have e: "mq_curmsgs (mqh_attr armed_queue) = 0" by (simp add: armed_queue_eval sample_attr_def)
  show ?thesis
    using s notification_single_shot [OF sample_call_ok p l e s]
    by (simp add: armed_queue_eval)
qed

text \<open>
  C5 as stated fails: with a receiver blocked, a send takes the live count from
  0 to 1, queues no signal and leaves the registration of process 42 in place.
\<close>

theorem notification_skipped_counterexample:
  "mq_curmsgs (mqh_attr armed_queue_waited) = 0 \<and> mqh_pid armed_queue_waited = 42
   \<and> send_view (u_mq_send sample_platform sample_env ''A'' 1 None armed_queue_waited)
       = Some (Ok (), 1, 42, [])"
  by (simp add: send_view_def u_mq_send_def sample_env_def sample_info_def sample_platform_def
      armed_queue_waited_def armed_queue_eval armed_queue_def sample_attr_def size_t_def
      notify_owner_def enqueue_msg_def Let_def sample_queue_eval find_place.simps)

subsection \<open>C6\<close>

text \<open>
  C6.  On a full queue (live count equal to the capacity, which is at least
  one) a send through a non-blocking descriptor returns an error and leaves the
  segment exactly as it was, having done nothing but take and release the
  mutex; for a call that passes the argument checks the error is \<open>EAGAIN\<close>.
\<close>

theorem send_full_nonblocking:
  assumes D: "\<not> testcancel E" "fdget E = Some mqinfo" "O_NONBLOCK \<in> mqi_flags mqinfo"
    and full: "mq_curmsgs (mqh_attr h) = mq_maxmsg (mqh_attr h)"
    and cap: "1 \<le> mq_maxmsg (mqh_attr h)"
  shows "\<exists>e tr. u_mq_send P E ptr prio abstime h = Some (Err e, h, tr)
      \<and> set tr \<subseteq> {ACQUIRE_MUTEX, RELEASE_MUTEX}
      \<and> (mqi_magic mqinfo = MQI_MAGIC P \<and> prio < MQ_PRIO_MAX P
           \<and> ipc_mutex_lock (lock_result E) = 0
           \<and> int (length ptr) \<le> size_t (mq_msgsize (mqh_attr h)) \<longrightarrow> e = EAGAIN)"
  using D full cap by (auto simp: u_mq_send_def)

theorem send_full_nonblocking_witness:
  "u_mq_send sample_platform nonblock_env ''A'' 1 None full_queue
     = Some (Err EAGAIN, full_queue, [ACQUIRE_MUTEX, RELEASE_MUTEX])"
proof -
  have d: "\<not> testcancel nonblock_env"
    "fdget nonblock_env = Some (sample_info\<lparr>mqi_flags := {O_NONBLOCK}\<rparr>)"
    "O_NONBLOCK \<in> mqi_flags (sample_info\<lparr>mqi_flags := {O_NONBLOCK}\<rparr>)"
    by (simp_all add: nonblock_env_def sample_env_def)
  have f: "mq_curmsgs (mqh_attr full_queue) = mq_maxmsg (mqh_attr full_queue)"
    "1 \<le> mq_maxmsg (mqh_attr full_queue)"
    by (simp_all add: full_queue_eval sample_attr_def)
  have v: "mqi_magic (sample_info\<lparr>mqi_flags := {O_NONBLOCK}\<rparr>) = MQI_MAGIC sample_platform
      \<and> (1::nat) < MQ_PRIO_MAX sample_platform
      \<and> ipc_mutex_lock (lock_result nonblock_env) = 0
      \<and> int (length ''A'') \<le> size_t (mq_msgsize (mqh_attr full_queue))"
    by (simp add: sample_info_def sample_platform_def nonblock_env_def sample_env_def
        full_queue_eval sample_attr_def size_t_def)
  have t: "snd (snd (the (u_mq_send sample_platform nonblock_env ''A'' 1 None full_queue)))
      = [ACQUIRE_MUTEX, RELEASE_MUTEX]"
    by (simp add: u_mq_send_def nonblock_env_def sample_env_def sample_info_def
        sample_platform_def full_queue_eval sample_attr_def size_t_def)
  show ?thesis
    using v t send_full_nonblocking [OF d f, of sample_platform "''A''" 1 None] by auto
qed

subsection \<open>C7\<close>

text \<open>
  C7 (as amended).  With the free list empty and the live count below the
  capacity a send ends in \<open>api_fatal\<close>, and so does a receive with the active
  list empty and a non-zero live count; neither returns an error.  Under the
  invariant that also ties the live count to the length of the active list
  and has a capacity of at least one, neither call can end in \<open>api_fatal\<close>.
\<close>

theorem fatal_only_on_corruption:
  "(call_ok P E mqinfo \<and> prio < MQ_PRIO_MAX P
      \<and> int (length ptr) \<le> size_t (mq_msgsize (mqh_attr h))
      \<and> mq_curmsgs (mqh_attr h) < mq_maxmsg (mqh_attr h) \<and> mqh_free h = 0
      \<longrightarrow> (\<exists>h0 tr. u_mq_send P E ptr prio abstime h = Some (Fatal, h0, tr)))
   \<and> (call_ok P E mqinfo \<and> size_t (mq_msgsize (mqh_attr h)) \<le> int maxlen
      \<and> mq_curmsgs (mqh_attr h) \<noteq> 0 \<and> mqh_head h = 0
      \<longrightarrow> u_mq_receive P E maxlen priop abstime h = Some (Fatal, h, [ACQUIRE_MUTEX]))
   \<and> (queue_inv h \<and> others_keep queue_inv E
      \<longrightarrow> (\<forall>h0 tr. u_mq_send P E ptr prio abstime h \<noteq> Some (Fatal, h0, tr))
        \<and> (\<forall>h0 tr. u_mq_receive P E maxlen priop abstime h \<noteq> Some (Fatal, h0, tr)))"
proof (intro conjI impI allI)
  assume A: "call_ok P E mqinfo \<and> prio < MQ_PRIO_MAX P
      \<and> int (length ptr) \<le> size_t (mq_msgsize (mqh_attr h))
      \<and> mq_curmsgs (mqh_attr h) < mq_maxmsg (mqh_attr h) \<and> mqh_free h = 0"
  then have "mqh_free (fst (notify_owner h)) = 0" by (simp add: notify_owner_def)
  with A show "\<exists>h0 tr. u_mq_send P E ptr prio abstime h = Some (Fatal, h0, tr)"
    by (auto simp: u_mq_send_def call_ok_def enqueue_msg_fatal)
next
  assume "call_ok P E mqinfo \<and> size_t (mq_msgsize (mqh_attr h)) \<le> int maxlen
      \<and> mq_curmsgs (mqh_attr h) \<noteq> 0 \<and> mqh_head h = 0"
  then show "u_mq_receive P E maxlen priop abstime h = Some (Fatal, h, [ACQUIRE_MUTEX])"
    by (auto simp: u_mq_receive_def call_ok_def dequeue_msg_fatal)
next
  fix h0 tr
  assume "queue_inv h \<and> others_keep queue_inv E"
  then show "u_mq_send P E ptr prio abstime h \<noteq> Some (Fatal, h0, tr)"
    using send_not_fatal by blast
next
  fix h0 tr
  assume "queue_inv h \<and> others_keep queue_inv E"
  then show "u_mq_receive P E maxlen priop abstime h \<noteq> Some (Fatal, h0, tr)"
    using receive_not_fatal by blast
qed

theorem fatal_only_on_corruption_witness:
  "queue_inv sample_queue \<and> others_keep queue_inv (sample_env\<lparr>waits := [timeout_wait]\<rparr>)
   \<and> u_mq_send sample_platform (sample_env\<lparr>waits := [timeout_wait]\<rparr>) ''A'' 1 None sample_queue
       \<noteq> Some (Fatal, sample_queue, [ACQUIRE_MUTEX])
   \<and> u_mq_receive sample_platform (sample_env\<lparr>waits := [timeout_wait]\<rparr>) 16 True None sample_queue
       \<noteq> Some (Fatal, sample_queue, [ACQUIRE_MUTEX])
   \<and> call_ok sample_platform sample_env sample_info
   \<and> (\<exists>h0 tr. u_mq_send sample_platform sample_env ''A'' 1 None miscounted_full = Some (Fatal, h0, tr))"
proof -
  have k: "others_keep queue_inv (sample_env\<lparr>waits := [timeout_wait]\<rparr>)"
    by (simp add: others_keep_def sample_env_def timeout_wait_def)
  have a: "(1::nat) < MQ_PRIO_MAX sample_platform
      \<and> int (length ''A'') \<le> size_t (mq_msgsize (mqh_attr miscounted_full))
      \<and> mq_curmsgs (mqh_attr miscounted_full) < mq_maxmsg (mqh_attr miscounted_full)
      \<and> mqh_free miscounted_full = 0"
    by (simp add: sample_platform_def miscounted_full_def full_queue_eval sample_attr_def size_t_def)
  show ?thesis
    using sample_queue_inv_ex k sample_call_ok a
      fatal_only_on_corruption [of sample_platform sample_env sample_info 1 "''A''"
         miscounted_full None 16 True]
      fatal_only_on_corruption [of sample_platform "sample_env\<lparr>waits := [timeout_wait]\<rparr>"
         sample_info 1 "''A''" sample_queue None 16 True]
    by blast
qed

text \<open>
  C7 as stated fails: both segments below satisfy the invariant as the data
  model words it (three slots in all, on well-formed lists, live count between
  0 and 3), and the calls end in \<open>api_fatal\<close>.
\<close>

theorem fatal_reachable_counterexample:
  "hdr_inv miscounted_full
   \<and> u_mq_send sample_platform sample_env ''A'' 1 None miscounted_full
       = Some (Fatal, miscounted_full, [ACQUIRE_MUTEX])
   \<and> hdr_inv miscounted_empty
   \<and> u_mq_receive sample_platform sample_env 16 True None miscounted_empty
       = Some (Fatal, miscounted_empty, [ACQUIRE_MUTEX])"
proof -
  have 1: "hdr_inv_lists miscounted_full [] [128, 156, 184]"
    by (simp add: hdr_inv_lists_def mq_lists_def miscounted_full_def full_queue_eval
        sample_queue_eval slot_offset_def sample_attr_def)
  have 2: "hdr_inv_lists miscounted_empty [128, 156, 184] []"
    by (simp add: hdr_inv_lists_def mq_lists_def miscounted_empty_def
        sample_queue_eval slot_offset_def sample_attr_def)
  have 3: "u_mq_send sample_platform sample_env ''A'' 1 None miscounted_full
       = Some (Fatal, miscounted_full, [ACQUIRE_MUTEX])"
    by (simp add: u_mq_send_def sample_env_def sample_info_def sample_platform_def
        miscounted_full_def full_queue_eval sample_attr_def size_t_def notify_owner_def
        enqueue_msg_def sample_queue_eval)
  have 4: "u_mq_receive sample_platform sample_env 16 True None miscounted_empty
       = Some (Fatal, miscounted_empty, [ACQUIRE_MUTEX])"
    by (simp add: u_mq_receive_def sample_env_def sample_info_def sample_platform_def
        miscounted_empty_def sample_attr_def size_t_def dequeue_msg_def sample_queue_eval)
  show ?thesis using 1 2 3 4 by (auto simp: hdr_inv_ex)
qed

subsection \<open>C8\<close>

text \<open>
  C8.  A timed condition wait that is given a malformed deadline returns
  \<open>EINVAL\<close> at once: the segment is returned as it was and nothing has been
  done to the event, the mutex or a timer (the trace of the call is empty).
\<close>

theorem timedwait_malformed_deadline:
  "\<not> valid_timespec P ts \<Longrightarrow>
     ipc_cond_timedwait P evt (Some ts) w h = Some (RET (Some EINVAL), h, [])"
  by (simp add: ipc_cond_timedwait_def)

theorem timedwait_malformed_deadline_witness:
  "\<not> valid_timespec sample_platform \<lparr>tv_sec = 5, tv_nsec = - 1\<rparr>
   \<and> ipc_cond_timedwait sample_platform WAITRECV (Some \<lparr>tv_sec = 5, tv_nsec = - 1\<rparr>)
        timeout_wait sample_queue = Some (RET (Some EINVAL), sample_queue, [])"
proof -
  have h: "\<not> valid_timespec sample_platform \<lparr>tv_sec = 5, tv_nsec = - 1\<rparr>"
    by (simp add: sample_platform_def)
  show ?thesis
    using h timedwait_malformed_deadline [OF h, of WAITRECV timeout_wait sample_queue] by simp
qed

subsection \<open>C9\<close>

text \<open>
  C9.  \<open>mq_setattr\<close> returns the segment unchanged (so capacity, message size
  and live count are as before); of the descriptor it changes nothing but
  whether \<open>O_NONBLOCK\<close> is among its flags; after a successful call
  \<open>mq_getattr\<close> reports the new flag together with the old capacity, message
  size and live count; and the old attributes handed back, when asked for, are
  what \<open>mq_getattr\<close> reported before the call.
\<close>

theorem mq_setattr_only_nonblock:
  assumes S: "mq_setattr P E mqstat want_old h = (r, mi', h')"
  shows "h' = h
    \<and> (\<forall>mqinfo. fdget E = Some mqinfo \<longrightarrow>
          (\<exists>mi. mi' = Some mi \<and> mqi_magic mi = mqi_magic mqinfo
                \<and> mqi_flags mi - {O_NONBLOCK} = mqi_flags mqinfo - {O_NONBLOCK}))
    \<and> (\<forall>x. r = Ok x \<longrightarrow>
          (\<exists>mi a old. mi' = Some mi
              \<and> (O_NONBLOCK \<in> mqi_flags mi \<longleftrightarrow> O_NONBLOCK \<in> mq_flags mqstat)
              \<and> mq_getattr P (E\<lparr>fdget := mi'\<rparr>) h' = Ok a
              \<and> (O_NONBLOCK \<in> mq_flags a \<longleftrightarrow> O_NONBLOCK \<in> mq_flags mqstat)
              \<and> mq_maxmsg a = mq_maxmsg (mqh_attr h)
              \<and> mq_msgsize a = mq_msgsize (mqh_attr h)
              \<and> mq_curmsgs a = mq_curmsgs (mqh_attr h)
              \<and> mq_getattr P E h = Ok old
              \<and> x = (if want_old then Some old else None)))"
proof (cases "fdget E")
  case None
  then show ?thesis using S by (auto simp: mq_setattr_def)
next
  case (Some mqinfo)
  show ?thesis
  proof (cases "mqi_magic mqinfo \<noteq> MQI_MAGIC P \<or> ipc_mutex_lock (lock_result E) \<noteq> 0")
    case True
    then have "r = Err EBADF \<or> r = Err (ERRNO (ipc_mutex_lock (lock_result E)))"
      and "mi' = Some mqinfo" and "h' = h"
      using S by (auto simp: mq_setattr_def Some split: if_splits)
    then show ?thesis using Some by auto
  next
    case False
    then show ?thesis using S Some
      by (cases "O_NONBLOCK \<in> mq_flags mqstat"; cases want_old)
         (auto simp: mq_setattr_def mq_getattr_def)
  qed
qed

theorem mq_setattr_only_nonblock_witness:
  "mq_setattr sample_platform sample_env nonblock_attr True sample_queue
     = (Ok (Some \<lparr>mq_flags = {}, mq_maxmsg = 3, mq_msgsize = 16, mq_curmsgs = 0\<rparr>),
        Some (sample_info\<lparr>mqi_flags := {O_NONBLOCK}\<rparr>), sample_queue)
   \<and> mq_getattr sample_platform (sample_env\<lparr>fdget := Some (sample_info\<lparr>mqi_flags := {O_NONBLOCK}\<rparr>)\<rparr>)
        sample_queue
     = Ok \<lparr>mq_flags = {O_NONBLOCK}, mq_maxmsg = 3, mq_msgsize = 16, mq_curmsgs = 0\<rparr>"
proof -
  have h: "mq_setattr sample_platform sample_env nonblock_attr True sample_queue
     = (Ok (Some \<lparr>mq_flags = {}, mq_maxmsg = 3, mq_msgsize = 16, mq_curmsgs = 0\<rparr>),
        Some (sample_info\<lparr>mqi_flags := {O_NONBLOCK}\<rparr>), sample_queue)"
    by (simp add: mq_setattr_def sample_env_def sample_info_def sample_platform_def
        nonblock_attr_def sample_queue_eval sample_attr_def)
  have g: "mq_getattr sample_platform (sample_env\<lparr>fdget := Some (sample_info\<lparr>mqi_flags := {O_NONBLOCK}\<rparr>)\<rparr>)
        sample_queue
     = Ok \<lparr>mq_flags = {O_NONBLOCK}, mq_maxmsg = 3, mq_msgsize = 16, mq_curmsgs = 0\<rparr>"
    by (simp add: mq_getattr_def sample_env_def sample_info_def sample_platform_def
        sample_queue_eval sample_attr_def)
  show ?thesis
    using h g mq_setattr_only_nonblock [OF h] by simp
qed

subsection \<open>C10\<close>

text \<open>
  C10.  When \<open>mq_open\<close> creates the queue (create flag given, the exclusive
  \<open>open\<close> and the later file operations succeed) and the attribute pointer is
  null, the queue is laid out from \<open>defattr\<close>, with capacity 10 and message
  size 8192, and no range check is involved; a supplied attribute block is
  rejected with \<open>EINVAL\<close> when out of range and used as given otherwise.
\<close>

theorem mq_open_default_attr:
  assumes C: "O_CREAT \<in> oflag" "creat_open t = None"
    and ops: "ftruncate64 t = None" "fdnew t = None" "build_fh t = None"
      "mqinfo_create t = Inr (mqinfo, raw)" "fchmod t = None"
  shows "mq_open P oflag None (t # ts) = Some (Ok (mqinfo, init_hdr P defattr raw), [CLOSE_FD])
    \<and> mq_maxmsg (mqh_attr (init_hdr P defattr raw)) = 10
    \<and> mq_msgsize (mqh_attr (init_hdr P defattr raw)) = 8192
    \<and> (\<forall>a. attr_out_of_range a \<longrightarrow>
           mq_open P oflag (Some a) (t # ts) = Some (Err EINVAL, [UNLINK, CLOSE_FD]))
    \<and> (\<forall>a. \<not> attr_out_of_range a \<longrightarrow>
           mq_open P oflag (Some a) (t # ts) = Some (Ok (mqinfo, init_hdr P a raw), [CLOSE_FD])
           \<and> mq_maxmsg (mqh_attr (init_hdr P a raw)) = mq_maxmsg a
           \<and> mq_msgsize (mqh_attr (init_hdr P a raw)) = mq_msgsize a)"
  using C ops
  by (simp add: create_queue_def init_hdr_attr defattr_def attr_out_of_range_def)

theorem mq_open_default_attr_witness:
  "mq_open sample_platform {O_CREAT} None [sample_try]
     = Some (Ok (sample_info, init_hdr sample_platform defattr zero_segment), [CLOSE_FD])
   \<and> mq_maxmsg (mqh_attr (init_hdr sample_platform defattr zero_segment)) = 10
   \<and> mq_msgsize (mqh_attr (init_hdr sample_platform defattr zero_segment)) = 8192
   \<and> mq_open sample_platform {O_CREAT} (Some (sample_attr\<lparr>mq_maxmsg := 0\<rparr>)) [sample_try]
     = Some (Err EINVAL, [UNLINK, CLOSE_FD])"
proof -
  have c: "O_CREAT \<in> {O_CREAT}" "creat_open sample_try = None"
    and o: "ftruncate64 sample_try = None" "fdnew sample_try = None" "build_fh sample_try = None"
      "mqinfo_create sample_try = Inr (sample_info, zero_segment)" "fchmod sample_try = None"
    by (simp_all add: sample_try_def)
  have r: "attr_out_of_range (sample_attr\<lparr>mq_maxmsg := 0\<rparr>)"
    by (simp add: attr_out_of_range_def)
  show ?thesis
    using r mq_open_default_attr [OF c o, of sample_platform "[]"] by blast
qed

end
